theory Spec2Isabelle
  imports Complex_Main "HOL-Library.Multiset"
begin

section \<open>JavaScript values used by the store\<close>

text \<open>
  A JavaScript number is modelled as an exact real or one of the three non-finite
  values. Arithmetic follows IEEE-754 on the special values (\<open>0 * Infinity = NaN\<close>,
  \<open>Infinity - Infinity = NaN\<close>, every comparison with \<open>NaN\<close> is false) and is exact on
  finite values: rounding, overflow and underflow of binary64 are not modelled, and the
  two signed zeros are one value. A finite result of the model is therefore the result
  of the code only where binary64 computes it exactly, as it does on the small integers
  of the examples. The theorems about the results of a search use the order of the
  scores and the sort only, and hold for whatever the scores are.
\<close>

datatype jsnum = Num real | NaN | PosInf | NegInf

fun isFinite :: "jsnum \<Rightarrow> bool" where
  "isFinite (Num x) = True"
| "isFinite NaN = False"
| "isFinite PosInf = False"
| "isFinite NegInf = False"

fun js_neg :: "jsnum \<Rightarrow> jsnum" where
  "js_neg (Num x) = Num (- x)"
| "js_neg NaN = NaN"
| "js_neg PosInf = NegInf"
| "js_neg NegInf = PosInf"

fun js_add :: "jsnum \<Rightarrow> jsnum \<Rightarrow> jsnum" where
  "js_add (Num x) (Num y) = Num (x + y)"
| "js_add NaN b = NaN"
| "js_add a NaN = NaN"
| "js_add PosInf NegInf = NaN"
| "js_add NegInf PosInf = NaN"
| "js_add PosInf b = PosInf"
| "js_add NegInf b = NegInf"
| "js_add (Num x) PosInf = PosInf"
| "js_add (Num x) NegInf = NegInf"

definition js_sub :: "jsnum \<Rightarrow> jsnum \<Rightarrow> jsnum" where
  "js_sub a b = js_add a (js_neg b)"

text \<open>The sign of an infinite product or quotient: \<open>True\<close> for a positive result.\<close>

definition inf_of_sign :: "bool \<Rightarrow> jsnum" where
  "inf_of_sign pos = (if pos then PosInf else NegInf)"

fun js_mul :: "jsnum \<Rightarrow> jsnum \<Rightarrow> jsnum" where
  "js_mul (Num x) (Num y) = Num (x * y)"
| "js_mul NaN b = NaN"
| "js_mul a NaN = NaN"
| "js_mul PosInf PosInf = PosInf"
| "js_mul PosInf NegInf = NegInf"
| "js_mul NegInf PosInf = NegInf"
| "js_mul NegInf NegInf = PosInf"
| "js_mul PosInf (Num y) = (if y = 0 then NaN else inf_of_sign (0 < y))"
| "js_mul NegInf (Num y) = (if y = 0 then NaN else inf_of_sign (y < 0))"
| "js_mul (Num x) PosInf = (if x = 0 then NaN else inf_of_sign (0 < x))"
| "js_mul (Num x) NegInf = (if x = 0 then NaN else inf_of_sign (x < 0))"

fun js_div :: "jsnum \<Rightarrow> jsnum \<Rightarrow> jsnum" where
  "js_div (Num x) (Num y) =
     (if y = 0 then (if x = 0 then NaN else inf_of_sign (0 < x)) else Num (x / y))"
| "js_div NaN b = NaN"
| "js_div a NaN = NaN"
| "js_div (Num x) PosInf = Num 0"
| "js_div (Num x) NegInf = Num 0"
| "js_div PosInf (Num y) = inf_of_sign (0 \<le> y)"
| "js_div NegInf (Num y) = inf_of_sign (y < 0)"
| "js_div PosInf b = NaN"
| "js_div NegInf b = NaN"

fun js_sqrt :: "jsnum \<Rightarrow> jsnum" where
  "js_sqrt (Num x) = (if x < 0 then NaN else Num (sqrt x))"
| "js_sqrt NaN = NaN"
| "js_sqrt PosInf = PosInf"
| "js_sqrt NegInf = NaN"

text \<open>\<open>Math.pow(x, 2)\<close>.\<close>

fun js_pow2 :: "jsnum \<Rightarrow> jsnum" where
  "js_pow2 (Num x) = Num (x * x)"
| "js_pow2 NaN = NaN"
| "js_pow2 PosInf = PosInf"
| "js_pow2 NegInf = PosInf"

fun js_ceil :: "jsnum \<Rightarrow> jsnum" where
  "js_ceil (Num x) = Num (of_int \<lceil>x\<rceil>)"
| "js_ceil NaN = NaN"
| "js_ceil PosInf = PosInf"
| "js_ceil NegInf = NegInf"

text \<open>The comparisons \<open>a > b\<close> and \<open>a >= b\<close>, and strict equality \<open>a === b\<close>.\<close>

fun js_gt :: "jsnum \<Rightarrow> jsnum \<Rightarrow> bool" where
  "js_gt (Num x) (Num y) = (y < x)"
| "js_gt NaN b = False"
| "js_gt a NaN = False"
| "js_gt PosInf PosInf = False"
| "js_gt PosInf b = True"
| "js_gt NegInf b = False"
| "js_gt (Num x) PosInf = False"
| "js_gt (Num x) NegInf = True"

fun js_eq :: "jsnum \<Rightarrow> jsnum \<Rightarrow> bool" where
  "js_eq NaN b = False"
| "js_eq a NaN = False"
| "js_eq a b = (a = b)"

definition js_ge :: "jsnum \<Rightarrow> jsnum \<Rightarrow> bool" where
  "js_ge a b = (js_gt a b \<or> js_eq a b)"

text \<open>
  \<open>array[i]\<close> read as a number: an index outside the array yields \<open>undefined\<close>, which
  arithmetic coerces to \<open>NaN\<close>.
\<close>

definition num_at :: "jsnum list \<Rightarrow> nat \<Rightarrow> jsnum" where
  "num_at xs i = (if i < length xs then xs ! i else NaN)"

text \<open>
  \<open>array.slice(start, end)\<close> for integer arguments: a negative index counts from the
  end of the array, and both indices are clamped to the array.
\<close>

definition slice_index :: "nat \<Rightarrow> int \<Rightarrow> nat" where
  "slice_index len k = (if k < 0 then nat (max (int len + k) 0) else min (nat k) len)"

definition js_slice :: "'a list \<Rightarrow> int \<Rightarrow> int \<Rightarrow> 'a list" where
  "js_slice xs start end =
     (let from = slice_index (length xs) start; to = slice_index (length xs) end
      in take (to - from) (drop from xs))"

text \<open>
  \<open>array.sort(compare)\<close>. ECMAScript requires the sort to be stable and treats a
  \<open>NaN\<close> comparison result as \<open>0\<close>; for a consistent comparator the result is then
  determined, and it is the one of this stable insertion sort: an element moves behind
  another one only when the comparator is strictly positive.
\<close>

fun js_insert :: "('a \<Rightarrow> 'a \<Rightarrow> jsnum) \<Rightarrow> 'a \<Rightarrow> 'a list \<Rightarrow> 'a list" where
  "js_insert cmp x [] = [x]"
| "js_insert cmp x (y # ys) =
     (if js_gt (cmp x y) (Num 0) then y # js_insert cmp x ys else x # y # ys)"

fun js_sort :: "('a \<Rightarrow> 'a \<Rightarrow> jsnum) \<Rightarrow> 'a list \<Rightarrow> 'a list" where
  "js_sort cmp [] = []"
| "js_sort cmp (x # xs) = js_insert cmp x (js_sort cmp xs)"

text \<open>
  A metadata value (\<open>any\<close> in the source): a primitive, or an object or array known
  by its identity. \<open>===\<close> compares primitives by value and objects by identity.
\<close>

datatype jsval = JUndefined | JNull | JBool bool | JNumber jsnum | JString string | JRef nat

fun strict_eq :: "jsval \<Rightarrow> jsval \<Rightarrow> bool" where
  "strict_eq (JNumber a) (JNumber b) = js_eq a b"
| "strict_eq a b = (a = b)"

section \<open>Similarity functions\<close>

text \<open>
  \<open>vecA.reduce((sum, a, i) => f(sum, a, i), 0)\<close>: a left fold that also passes
  the index of the element.
\<close>

fun reduce_from :: "(jsnum \<Rightarrow> jsnum \<Rightarrow> nat \<Rightarrow> jsnum) \<Rightarrow> nat \<Rightarrow> jsnum \<Rightarrow> jsnum list \<Rightarrow> jsnum" where
  "reduce_from f i acc [] = acc"
| "reduce_from f i acc (a # as) = reduce_from f (Suc i) (f acc a i) as"

definition reduce :: "(jsnum \<Rightarrow> jsnum \<Rightarrow> nat \<Rightarrow> jsnum) \<Rightarrow> jsnum list \<Rightarrow> jsnum" where
  "reduce f vec = reduce_from f 0 (Num 0) vec"

definition dotProductSimilarity :: "jsnum list \<Rightarrow> jsnum list \<Rightarrow> jsnum" where
  "dotProductSimilarity vecA vecB =
     reduce (\<lambda>sum a i. js_add sum (js_mul a (num_at vecB i))) vecA"

definition magnitude :: "jsnum list \<Rightarrow> jsnum" where
  "magnitude vec = js_sqrt (reduce (\<lambda>sum a i. js_add sum (js_mul a a)) vec)"

definition cosineSimilarity :: "jsnum list \<Rightarrow> jsnum list \<Rightarrow> jsnum" where
  "cosineSimilarity vecA vecB =
     (let dotProduct = reduce (\<lambda>sum a i. js_add sum (js_mul a (num_at vecB i))) vecA;
          magnitudeA = magnitude vecA;
          magnitudeB = magnitude vecB
      in if js_eq magnitudeA (Num 0) \<or> js_eq magnitudeB (Num 0) then Num 0
         else js_div dotProduct (js_mul magnitudeA magnitudeB))"

definition euclideanSimilarity :: "jsnum list \<Rightarrow> jsnum list \<Rightarrow> jsnum" where
  "euclideanSimilarity vecA vecB =
     (let distance = js_sqrt
            (reduce (\<lambda>sum a i. js_add sum (js_pow2 (js_sub a (num_at vecB i)))) vecA)
      in js_div (Num 1) (js_add (Num 1) distance))"

datatype SimilarityMethod = Cosine | Euclidean | Dot

datatype error =
    ProviderThrown string
  | TypeError
  | OpenAIRequired
  | FailedToGenerateEmbedding error
  | FailedToGenerateEmbeddings error
  | FailedToGenerateEmbeddingsForBatch nat error
  | FailedBatchDocuments nat nat nat error
  | MustHaveContent
  | MustHaveEmbeddingOrCreate
  | MustHaveID
  | MustHaveValidEmbedding
  | EmbeddingNotFinite
  | DimensionsDontMatch nat "nat option"
  | InvalidIDAtIndex nat
  | DuplicateID string nat nat
  | AlreadyExists string
  | ContentRequiredAt nat string
  | EmbeddingRequiredAt nat string
  | InvalidEmbeddingValuesAt nat string
  | DimensionMismatchAt nat string nat nat
  | InvalidEmbeddingArray string
  | InvalidEmbeddingValues string
  | DocDimensionMismatch string nat nat
  | GeneratedDimensionMismatch nat nat
  | GeneratedInconsistent
  | InconsistentBatch string nat string nat
  | BatchDimensionMismatch nat nat
  | QueryEmpty
  | VectorsDimensions
  | BatchSizeNotPositive
  | BatchDelayNegative

text \<open>
  \<open>calculateSimilarity\<close> throws when the lengths differ; a missing embedding
  (\<open>undefined\<close>) makes the read of \<open>vecB.length\<close> throw a \<open>TypeError\<close>.
\<close>

definition calculateSimilarity ::
  "jsnum list \<Rightarrow> jsnum list option \<Rightarrow> SimilarityMethod \<Rightarrow> error + jsnum" where
  "calculateSimilarity vecA vecB' method =
     (case vecB' of
        None \<Rightarrow> Inl TypeError
      | Some vecB \<Rightarrow>
          if length vecA \<noteq> length vecB then Inl VectorsDimensions
          else (case method of
                  Cosine \<Rightarrow> Inr (cosineSimilarity vecA vecB)
                | Euclidean \<Rightarrow> Inr (euclideanSimilarity vecA vecB)
                | Dot \<Rightarrow> Inr (dotProductSimilarity vecA vecB)))"

section \<open>Documents, options and the store\<close>

text \<open>
  \<open>VectorDocument\<close>: the field \<open>id\<close> of the source is \<open>docId\<close> here. A \<open>Date\<close> is
  its time value in milliseconds. An absent optional field is \<open>None\<close>.
\<close>

record VectorDocument =
  docId :: string
  content :: string
  embedding :: "jsnum list option"
  metadata :: "(string \<times> jsval) list option"
  createdAt :: "int option"
  updatedAt :: "int option"

record SearchResult =
  document :: VectorDocument
  similarity :: jsnum

text \<open>
  \<open>SearchOptions\<close>. The numbers \<open>limit\<close>, \<open>page\<close> and \<open>pageSize\<close> are integers (of either
  sign); fractional values are not modelled.
\<close>

record SearchOptions =
  limit :: "int option"
  threshold :: "jsnum option"
  similarityMethod :: "SimilarityMethod option"
  metadataFilter :: "(string \<times> jsval) list option"
  page :: "int option"
  pageSize :: "int option"

record AddDocumentsOptions =
  opt_createEmbedding :: "bool option"
  opt_batchSize :: "int option"
  opt_batchDelay :: "int option"
  opt_onProgress :: bool

text \<open>
  Everything the store does to the outside world is logged as an event: a call of
  \<open>openai.embeddings.create\<close> with its input and model, a \<open>delay(ms)\<close>, a call of the
  \<open>onProgress\<close> callback, and a \<open>console.warn\<close> about a skipped document.
\<close>

datatype embed_input = One string | Many "string list"

datatype event =
    EmbedCall embed_input string
  | Delay int
  | Progress nat nat
  | Warn string

text \<open>
  The embedding provider is a parameter of the store. Its answer may depend on everything
  that happened before the call; it either throws (\<open>Inl\<close> the message) or returns the
  \<open>data\<close> array of (embedding, index) items.
\<close>

type_synonym OpenAIInstance =
  "event list \<Rightarrow> embed_input \<Rightarrow> string \<Rightarrow> string + (jsnum list \<times> int) list"

text \<open>
  The \<open>Map\<close> of documents keeps insertion order: it is an association list with unique
  keys, \<open>set\<close> replaces the value of an existing key in place and appends a new key at
  the end.
\<close>

fun map_set :: "string \<Rightarrow> 'v \<Rightarrow> (string \<times> 'v) list \<Rightarrow> (string \<times> 'v) list" where
  "map_set k v [] = [(k, v)]"
| "map_set k v (e # m) = (if fst e = k then (k, v) # m else e # map_set k v m)"

definition map_get :: "string \<Rightarrow> (string \<times> 'v) list \<Rightarrow> 'v option" where
  "map_get k m = map_of m k"

definition map_has :: "string \<Rightarrow> (string \<times> 'v) list \<Rightarrow> bool" where
  "map_has k m = (map_of m k \<noteq> None)"

definition map_delete :: "string \<Rightarrow> (string \<times> 'v) list \<Rightarrow> (string \<times> 'v) list" where
  "map_delete k m = filter (\<lambda>e. fst e \<noteq> k) m"

definition map_values :: "(string \<times> 'v) list \<Rightarrow> 'v list" where
  "map_values m = map snd m"

record NeuraDB =
  documents :: "(string \<times> VectorDocument) list"
  openai :: "OpenAIInstance option"
  embeddingModel :: string
  defaultBatchSize :: int
  batchDelay :: int

text \<open>The constructor: \<open>x || d\<close> replaces an absent, empty or zero option by the default.\<close>

definition new_NeuraDB ::
  "OpenAIInstance option \<Rightarrow> string option \<Rightarrow> int option \<Rightarrow> int option \<Rightarrow> NeuraDB" where
  "new_NeuraDB oa model bs bd =
     \<lparr> documents = [],
       openai = oa,
       embeddingModel = (case model of None \<Rightarrow> ''text-embedding-3-small''
                         | Some m \<Rightarrow> if m = [] then ''text-embedding-3-small'' else m),
       defaultBatchSize = (case bs of None \<Rightarrow> 100 | Some n \<Rightarrow> if n = 0 then 100 else n),
       batchDelay = (case bd of None \<Rightarrow> 1000 | Some n \<Rightarrow> if n = 0 then 1000 else n) \<rparr>"

subsection \<open>Simple accessors\<close>

definition getDocument :: "NeuraDB \<Rightarrow> string \<Rightarrow> VectorDocument option" where
  "getDocument db k = map_get k (documents db)"

definition hasDocument :: "NeuraDB \<Rightarrow> string \<Rightarrow> bool" where
  "hasDocument db k = map_has k (documents db)"

definition getAllDocuments :: "NeuraDB \<Rightarrow> VectorDocument list" where
  "getAllDocuments db = map_values (documents db)"

definition size_db :: "NeuraDB \<Rightarrow> nat" where
  "size_db db = length (documents db)"

definition isEmpty :: "NeuraDB \<Rightarrow> bool" where
  "isEmpty db = (length (documents db) = 0)"

text \<open>
  \<open>getEmbeddingDimensions\<close> reads the first document in insertion order; reading the
  length of a missing embedding throws.
\<close>

definition getEmbeddingDimensions :: "NeuraDB \<Rightarrow> error + nat option" where
  "getEmbeddingDimensions db =
     (case map_values (documents db) of
        [] \<Rightarrow> Inr None
      | firstDoc # _ \<Rightarrow>
          (case embedding firstDoc of
             None \<Rightarrow> Inl TypeError
           | Some e \<Rightarrow> Inr (Some (length e))))"

definition removeDocument :: "NeuraDB \<Rightarrow> string \<Rightarrow> bool \<times> NeuraDB" where
  "removeDocument db k =
     (map_has k (documents db), db\<lparr>documents := map_delete k (documents db)\<rparr>)"

definition clear :: "NeuraDB \<Rightarrow> NeuraDB" where
  "clear db = db\<lparr>documents := []\<rparr>"

subsection \<open>Configuration\<close>

definition setEmbeddingModel :: "NeuraDB \<Rightarrow> string \<Rightarrow> NeuraDB" where
  "setEmbeddingModel db model = db\<lparr>embeddingModel := model\<rparr>"

definition setDefaultBatchSize :: "NeuraDB \<Rightarrow> int \<Rightarrow> (error + unit) \<times> NeuraDB" where
  "setDefaultBatchSize db bSize =
     (if bSize \<le> 0 then (Inl BatchSizeNotPositive, db)
      else (Inr (), db\<lparr>defaultBatchSize := bSize\<rparr>))"

definition setDefaultBatchDelay :: "NeuraDB \<Rightarrow> int \<Rightarrow> (error + unit) \<times> NeuraDB" where
  "setDefaultBatchDelay db delay =
     (if delay < 0 then (Inl BatchDelayNegative, db)
      else (Inr (), db\<lparr>batchDelay := delay\<rparr>))"

subsection \<open>Validation\<close>

text \<open>\<open>validateDocument\<close>: \<open>None\<close> when the document passes, else the error thrown.\<close>

definition validateDocument :: "VectorDocument \<Rightarrow> error option" where
  "validateDocument d =
     (if docId d = [] then Some MustHaveID
      else (case embedding d of
              None \<Rightarrow> Some MustHaveValidEmbedding
            | Some e \<Rightarrow>
                if length e = 0 then Some MustHaveValidEmbedding
                else if list_ex (\<lambda>val. \<not> isFinite val) e then Some EmbeddingNotFinite
                else None))"

definition validateEmbeddingDimensions :: "NeuraDB \<Rightarrow> jsnum list \<Rightarrow> error + bool" where
  "validateEmbeddingDimensions db e =
     (case getEmbeddingDimensions db of
        Inl err \<Rightarrow> Inl err
      | Inr None \<Rightarrow> Inr True
      | Inr (Some expectedDim) \<Rightarrow> Inr (length e = expectedDim))"

subsection \<open>Metadata filter\<close>

text \<open>
  \<open>doc.metadata[key]\<close> is \<open>undefined\<close> for a key the object does not have (properties
  inherited from \<open>Object.prototype\<close> are not modelled). \<open>Object.entries(filter)\<close> is the
  association list of the filter.
\<close>

definition metadata_lookup :: "(string \<times> jsval) list \<Rightarrow> string \<Rightarrow> jsval" where
  "metadata_lookup md key = (case map_of md key of None \<Rightarrow> JUndefined | Some v \<Rightarrow> v)"

definition matchesFilter :: "(string \<times> jsval) list \<Rightarrow> VectorDocument \<Rightarrow> bool" where
  "matchesFilter flt doc =
     (case metadata doc of
        None \<Rightarrow> False
      | Some md \<Rightarrow> list_all (\<lambda>(key, v). strict_eq (metadata_lookup md key) v) flt)"

definition filterByMetadata ::
  "VectorDocument list \<Rightarrow> (string \<times> jsval) list \<Rightarrow> VectorDocument list" where
  "filterByMetadata docs flt = filter (matchesFilter flt) docs"

definition getDocumentsByMetadata :: "NeuraDB \<Rightarrow> (string \<times> jsval) list \<Rightarrow> VectorDocument list" where
  "getDocumentsByMetadata db flt = filterByMetadata (getAllDocuments db) flt"

section \<open>Embedding generation\<close>

text \<open>
  \<open>response.data.sort((a, b) => a.index - b.index).map(item => item.embedding)\<close>.
\<close>

definition sortedEmbeddings :: "(jsnum list \<times> int) list \<Rightarrow> jsnum list list" where
  "sortedEmbeddings data = map fst (js_sort (\<lambda>a b. Num (of_int (snd a - snd b))) data)"

text \<open>
  \<open>generateEmbedding\<close>: one provider call with the text itself as input. Whatever is
  thrown inside the \<open>try\<close> block (by the provider, or by reading \<open>data[0].embedding\<close> of
  an empty \<open>data\<close>) is rethrown wrapped.
\<close>

definition generateEmbedding ::
  "NeuraDB \<Rightarrow> event list \<Rightarrow> string \<Rightarrow> (error + jsnum list) \<times> event list" where
  "generateEmbedding db evs t =
     (case openai db of
        None \<Rightarrow> (Inl OpenAIRequired, evs)
      | Some create \<Rightarrow>
          (case create evs (One t) (embeddingModel db) of
             Inl msg \<Rightarrow>
               (Inl (FailedToGenerateEmbedding (ProviderThrown msg)),
                evs @ [EmbedCall (One t) (embeddingModel db)])
           | Inr data \<Rightarrow>
               (case data of
                  [] \<Rightarrow>
                    (Inl (FailedToGenerateEmbedding TypeError),
                     evs @ [EmbedCall (One t) (embeddingModel db)])
                | item # _ \<Rightarrow>
                    (Inr (fst item), evs @ [EmbedCall (One t) (embeddingModel db)]))))"

text \<open>
  \<open>chunkArray\<close>: the loop \<open>for (i = 0; i < array.length; i += chunkSize)\<close>. With a chunk
  size of zero or less it never ends on a non-empty array, so the loop is a partial
  function: \<open>None\<close> is "does not return".
\<close>

partial_function (option) chunkLoop ::
  "'a list \<Rightarrow> int \<Rightarrow> int \<Rightarrow> 'a list list \<Rightarrow> 'a list list option" where
  "chunkLoop array chunkSize i chunks =
     (if i < int (length array)
      then chunkLoop array chunkSize (i + chunkSize)
             (chunks @ [js_slice array i (i + chunkSize)])
      else Some chunks)"

declare chunkLoop.simps [code]

definition chunkArray :: "'a list \<Rightarrow> int \<Rightarrow> 'a list list option" where
  "chunkArray array chunkSize = chunkLoop array chunkSize 0 []"

text \<open>
  The loop over the batches in \<open>generateEmbeddings\<close>: \<open>n\<close> is \<open>batches.length\<close>, \<open>i\<close> the
  loop index, and the last argument the batches from index \<open>i\<close> on.
\<close>

fun embedBatches ::
  "OpenAIInstance \<Rightarrow> string \<Rightarrow> int \<Rightarrow> nat \<Rightarrow> nat \<Rightarrow> jsnum list list \<Rightarrow> event list \<Rightarrow>
   string list list \<Rightarrow> (error + jsnum list list) \<times> event list" where
  "embedBatches create model bDelay n i allEmbeddings evs [] = (Inr allEmbeddings, evs)"
| "embedBatches create model bDelay n i allEmbeddings evs (batch # rest) =
     (case create evs (Many batch) model of
        Inl msg \<Rightarrow>
          (Inl (FailedToGenerateEmbeddingsForBatch (i + 1) (ProviderThrown msg)),
           evs @ [EmbedCall (Many batch) model])
      | Inr data \<Rightarrow>
          embedBatches create model bDelay n (i + 1)
            (allEmbeddings @ sortedEmbeddings data)
            (evs @ [EmbedCall (Many batch) model]
                 @ (if int i < int n - 1 \<and> 0 < bDelay then [Delay bDelay] else []))
            rest)"

definition generateEmbeddings ::
  "NeuraDB \<Rightarrow> event list \<Rightarrow> string list \<Rightarrow> int \<Rightarrow> int \<Rightarrow>
   ((error + jsnum list list) \<times> event list) option" where
  "generateEmbeddings db evs texts bSize bDelay =
     (case openai db of
        None \<Rightarrow> Some (Inl OpenAIRequired, evs)
      | Some create \<Rightarrow>
          if length texts = 0 then Some (Inr [], evs)
          else if int (length texts) \<le> bSize then
            Some (case create evs (Many texts) (embeddingModel db) of
                    Inl msg \<Rightarrow>
                      (Inl (FailedToGenerateEmbeddings (ProviderThrown msg)),
                       evs @ [EmbedCall (Many texts) (embeddingModel db)])
                  | Inr data \<Rightarrow>
                      (Inr (sortedEmbeddings data),
                       evs @ [EmbedCall (Many texts) (embeddingModel db)]))
          else
            (case chunkArray texts bSize of
               None \<Rightarrow> None
             | Some batches \<Rightarrow>
                 Some (embedBatches create (embeddingModel db) bDelay (length batches) 0 []
                         evs batches)))"

section \<open>Adding, updating and removing documents\<close>

text \<open>
  The first block of \<open>addDocument\<close> and of \<open>updateDocument\<close>, which is the same code in
  both: the document's own embedding, or a generated one. An array, even an empty one,
  is truthy.
\<close>

definition resolveEmbedding ::
  "NeuraDB \<Rightarrow> event list \<Rightarrow> VectorDocument \<Rightarrow> bool \<Rightarrow> (error + VectorDocument) \<times> event list" where
  "resolveEmbedding db evs doc createEmb =
     (if createEmb \<and> embedding doc = None then
        (if content doc = [] then (Inl MustHaveContent, evs)
         else (case generateEmbedding db evs (content doc) of
                 (Inl e, evs') \<Rightarrow> (Inl e, evs')
               | (Inr emb, evs') \<Rightarrow> (Inr (doc\<lparr>embedding := Some emb\<rparr>), evs')))
      else if embedding doc \<noteq> None then (Inr doc, evs)
      else (Inl MustHaveEmbeddingOrCreate, evs))"

text \<open>
  The dimension check of both functions: the error thrown, if any. The message reports
  the length of the embedding and the value of \<open>getEmbeddingDimensions()\<close>.
\<close>

definition checkDimensions :: "NeuraDB \<Rightarrow> jsnum list option \<Rightarrow> error option" where
  "checkDimensions db emb =
     (case emb of
        None \<Rightarrow> Some TypeError
      | Some e \<Rightarrow>
          (case validateEmbeddingDimensions db e of
             Inl err \<Rightarrow> Some err
           | Inr True \<Rightarrow> None
           | Inr False \<Rightarrow>
               (case getEmbeddingDimensions db of
                  Inl err \<Rightarrow> Some err
                | Inr d \<Rightarrow> Some (DimensionsDontMatch (length e) d))))"

text \<open>\<open>now\<close> is the value of \<open>new Date()\<close> when the document is written.\<close>

definition addDocument ::
  "NeuraDB \<Rightarrow> event list \<Rightarrow> int \<Rightarrow> VectorDocument \<Rightarrow> bool \<Rightarrow>
   (error + unit) \<times> NeuraDB \<times> event list" where
  "addDocument db evs now doc createEmb =
     (case resolveEmbedding db evs doc createEmb of
        (Inl e, evs') \<Rightarrow> (Inl e, db, evs')
      | (Inr finalDocument, evs') \<Rightarrow>
          (case validateDocument finalDocument of
             Some e \<Rightarrow> (Inl e, db, evs')
           | None \<Rightarrow>
               (case checkDimensions db (embedding finalDocument) of
                  Some e \<Rightarrow> (Inl e, db, evs')
                | None \<Rightarrow>
                    (Inr (),
                     db\<lparr>documents :=
                          map_set (docId finalDocument)
                            (finalDocument
                               \<lparr>createdAt :=
                                  Some (case createdAt finalDocument of
                                          Some c \<Rightarrow> c | None \<Rightarrow> now),
                                updatedAt := Some now\<rparr>)
                            (documents db)\<rparr>,
                     evs'))))"

definition updateDocument ::
  "NeuraDB \<Rightarrow> event list \<Rightarrow> int \<Rightarrow> VectorDocument \<Rightarrow> bool \<Rightarrow>
   (error + bool) \<times> NeuraDB \<times> event list" where
  "updateDocument db evs now doc createEmb =
     (if \<not> map_has (docId doc) (documents db) then (Inr False, db, evs)
      else
        (case resolveEmbedding db evs doc createEmb of
           (Inl e, evs') \<Rightarrow> (Inl e, db, evs')
         | (Inr finalDocument, evs') \<Rightarrow>
             (case validateDocument finalDocument of
                Some e \<Rightarrow> (Inl e, db, evs')
              | None \<Rightarrow>
                  (case checkDimensions db (embedding finalDocument) of
                     Some e \<Rightarrow> (Inl e, db, evs')
                   | None \<Rightarrow>
                       (case map_get (docId finalDocument) (documents db) of
                          None \<Rightarrow> (Inl TypeError, db, evs')
                        | Some existingDoc \<Rightarrow>
                            (Inr True,
                             db\<lparr>documents :=
                                  map_set (docId finalDocument)
                                    (finalDocument
                                       \<lparr>createdAt := createdAt existingDoc,
                                        updatedAt := Some now\<rparr>)
                                    (documents db)\<rparr>,
                             evs'))))))"

section \<open>Adding a batch of documents\<close>

text \<open>
  A string is the list of the bytes of its UTF-8 encoding, so a code point above U+007F
  is two or three characters of the list. \<open>s.trim() === ''\<close> holds when the string consists
  of white space and line terminators only, which are the code points U+0009 to U+000D,
  U+0020, U+00A0, U+1680, U+2000 to U+200A, U+2028, U+2029, U+202F, U+205F, U+3000 and
  U+FEFF: \<open>is_ws\<close> recognises those of one byte, \<open>is_ws2\<close> the one of two bytes
  (\<open>C2 A0\<close>), \<open>is_ws3\<close> those of three bytes.
\<close>

definition is_ws :: "char \<Rightarrow> bool" where
  "is_ws c = (c = CHR '' '' \<or> ((9::nat) \<le> of_char c \<and> of_char c \<le> (13::nat)))"

definition is_ws2 :: "char \<Rightarrow> char \<Rightarrow> bool" where
  "is_ws2 a b = (of_char a = (194::nat) \<and> of_char b = (160::nat))"

definition is_ws3 :: "char \<Rightarrow> char \<Rightarrow> char \<Rightarrow> bool" where
  "is_ws3 a b c =
     ((of_char a = (225::nat) \<and> of_char b = (154::nat) \<and> of_char c = (128::nat)) \<or>
      (of_char a = (226::nat) \<and> of_char b = (128::nat) \<and>
         (((128::nat) \<le> of_char c \<and> of_char c \<le> (138::nat)) \<or>
          of_char c = (168::nat) \<or> of_char c = (169::nat) \<or> of_char c = (175::nat))) \<or>
      (of_char a = (226::nat) \<and> of_char b = (129::nat) \<and> of_char c = (159::nat)) \<or>
      (of_char a = (227::nat) \<and> of_char b = (128::nat) \<and> of_char c = (128::nat)) \<or>
      (of_char a = (239::nat) \<and> of_char b = (187::nat) \<and> of_char c = (191::nat)))"

fun is_blank :: "string \<Rightarrow> bool" where
  "is_blank [] = True"
| "is_blank [a] = is_ws a"
| "is_blank [a, b] = ((is_ws a \<and> is_blank [b]) \<or> is_ws2 a b)"
| "is_blank (a # b # c # s) =
     ((is_ws a \<and> is_blank (b # c # s)) \<or> (is_ws2 a b \<and> is_blank (c # s)) \<or>
      (is_ws3 a b c \<and> is_blank s))"

text \<open>\<open>array.findIndex((x, index) => p(index, x))\<close>; \<open>None\<close> is the result \<open>-1\<close>.\<close>

fun findIndex_from :: "(nat \<Rightarrow> 'a \<Rightarrow> bool) \<Rightarrow> nat \<Rightarrow> 'a list \<Rightarrow> nat option" where
  "findIndex_from p i [] = None"
| "findIndex_from p i (x # xs) = (if p i x then Some i else findIndex_from p (Suc i) xs)"

definition findIndex :: "(nat \<Rightarrow> 'a \<Rightarrow> bool) \<Rightarrow> 'a list \<Rightarrow> nat option" where
  "findIndex p xs = findIndex_from p 0 xs"

text \<open>
  \<open>array.forEach((x, index) => ...)\<close> with a body that may throw: the first error
  thrown, in index order.
\<close>

fun forEach_from :: "(nat \<Rightarrow> 'a \<Rightarrow> error option) \<Rightarrow> nat \<Rightarrow> 'a list \<Rightarrow> error option" where
  "forEach_from f i [] = None"
| "forEach_from f i (x # xs) =
     (case f i x of Some e \<Rightarrow> Some e | None \<Rightarrow> forEach_from f (Suc i) xs)"

text \<open>
  The last part of the body of the early validation loop of \<open>addDocuments\<close>: the check
  of the content when embeddings are to be created, of the embedding otherwise.
\<close>

definition embeddingCheck :: "NeuraDB \<Rightarrow> bool \<Rightarrow> nat \<Rightarrow> VectorDocument \<Rightarrow> error option" where
  "embeddingCheck db createEmb index doc =
     (if createEmb then
        (if embedding doc = None \<and> (content doc = [] \<or> is_blank (content doc))
         then Some (ContentRequiredAt index (docId doc)) else None)
      else
        (case embedding doc of
           None \<Rightarrow> Some (EmbeddingRequiredAt index (docId doc))
         | Some e \<Rightarrow>
             if length e = 0 then Some (EmbeddingRequiredAt index (docId doc))
             else if list_ex (\<lambda>val. \<not> isFinite val) e
             then Some (InvalidEmbeddingValuesAt index (docId doc))
             else
               (case getEmbeddingDimensions db of
                  Inl err \<Rightarrow> Some err
                | Inr None \<Rightarrow> None
                | Inr (Some expectedDim) \<Rightarrow>
                    if length e \<noteq> expectedDim
                    then Some (DimensionMismatchAt index (docId doc) (length e) expectedDim)
                    else None)))"

text \<open>
  The body of the early validation loop, for the document at \<open>index\<close>: the id, a
  duplicate of the id in the input, the id in the table, then the check above.
\<close>

definition preValidate ::
  "NeuraDB \<Rightarrow> VectorDocument list \<Rightarrow> bool \<Rightarrow> nat \<Rightarrow> VectorDocument \<Rightarrow> error option" where
  "preValidate db docs createEmb index doc =
     (if docId doc = [] \<or> is_blank (docId doc) then Some (InvalidIDAtIndex index)
      else
        (case findIndex (\<lambda>otherIndex otherDoc. otherIndex \<noteq> index \<and> docId otherDoc = docId doc)
                docs of
           Some duplicateIndex \<Rightarrow> Some (DuplicateID (docId doc) index duplicateIndex)
         | None \<Rightarrow>
             if map_has (docId doc) (documents db) then Some (AlreadyExists (docId doc))
             else embeddingCheck db createEmb index doc))"

text \<open>
  The loop that separates the documents that need an embedding from those that have one,
  validating the latter; the two accumulators are the arrays it pushes to.
\<close>

fun partitionDocuments ::
  "NeuraDB \<Rightarrow> VectorDocument list \<Rightarrow> VectorDocument list \<Rightarrow> VectorDocument list \<Rightarrow>
   error + (VectorDocument list \<times> VectorDocument list)" where
  "partitionDocuments db needing having [] = Inr (needing, having)"
| "partitionDocuments db needing having (doc # rest) =
     (case embedding doc of
        None \<Rightarrow> partitionDocuments db (needing @ [doc]) having rest
      | Some e \<Rightarrow>
          if length e = 0 then Inl (InvalidEmbeddingArray (docId doc))
          else if list_ex (\<lambda>val. \<not> isFinite val) e then Inl (InvalidEmbeddingValues (docId doc))
          else
            (case getEmbeddingDimensions db of
               Inl err \<Rightarrow> Inl err
             | Inr None \<Rightarrow> partitionDocuments db needing (having @ [doc]) rest
             | Inr (Some expectedDim) \<Rightarrow>
                 if length e \<noteq> expectedDim
                 then Inl (DocDimensionMismatch (docId doc) (length e) expectedDim)
                 else partitionDocuments db needing (having @ [doc]) rest))"

text \<open>
  The loop with progress tracking: \<open>n\<close> is \<open>batches.length\<close>, \<open>i\<close> the loop index and
  the last argument the batches from index \<open>i\<close> on. Each batch goes through
  \<open>generateEmbeddings(batch, batch.length, 0)\<close>. The \<open>onProgress\<close> callback is taken not
  to throw.
\<close>

fun progressBatches ::
  "NeuraDB \<Rightarrow> int \<Rightarrow> nat \<Rightarrow> nat \<Rightarrow> nat \<Rightarrow> nat \<Rightarrow> jsnum list list \<Rightarrow> event list \<Rightarrow>
   string list list \<Rightarrow> ((error + jsnum list list) \<times> event list) option" where
  "progressBatches db bDelay n totalToProcess i processedCount generated evs [] =
     Some (Inr generated, evs)"
| "progressBatches db bDelay n totalToProcess i processedCount generated evs (batch # rest) =
     (case generateEmbeddings db evs batch (int (length batch)) 0 of
        None \<Rightarrow> None
      | Some (Inl e, evs') \<Rightarrow>
          Some (Inl (FailedBatchDocuments (i + 1) (processedCount + 1)
                       (processedCount + length batch) e), evs')
      | Some (Inr batchEmbeddings, evs') \<Rightarrow>
          progressBatches db bDelay n totalToProcess (i + 1) (processedCount + length batch)
            (generated @ batchEmbeddings)
            (evs' @ [Progress (processedCount + length batch) totalToProcess]
                  @ (if int i < int n - 1 \<and> 0 < bDelay then [Delay bDelay] else []))
            rest)"

text \<open>
  The block that generates the embeddings of the documents that need one; every error
  thrown inside it is wrapped by its outer \<open>catch\<close>.
\<close>

definition wrapGenerate ::
  "((error + jsnum list list) \<times> event list) option \<Rightarrow>
   ((error + jsnum list list) \<times> event list) option" where
  "wrapGenerate r =
     (case r of
        None \<Rightarrow> None
      | Some (Inl e, evs') \<Rightarrow> Some (Inl (FailedToGenerateEmbeddings e), evs')
      | Some (Inr gen, evs') \<Rightarrow> Some (Inr gen, evs'))"

definition generateFor ::
  "NeuraDB \<Rightarrow> event list \<Rightarrow> VectorDocument list \<Rightarrow> int \<Rightarrow> int \<Rightarrow> bool \<Rightarrow>
   ((error + jsnum list list) \<times> event list) option" where
  "generateFor db evs needing bSize bDelay onProgress =
     (if length needing > 0 then
        (let textsToEmbed = map content needing in
         if onProgress then
           (case chunkArray textsToEmbed bSize of
              None \<Rightarrow> None
            | Some batches \<Rightarrow>
                wrapGenerate
                  (progressBatches db bDelay (length batches) (length needing) 0 0 [] evs batches))
         else wrapGenerate (generateEmbeddings db evs textsToEmbed bSize bDelay))
      else Some (Inr [], evs))"

definition validateGenerated :: "NeuraDB \<Rightarrow> jsnum list list \<Rightarrow> error option" where
  "validateGenerated db generated =
     (case generated of
        [] \<Rightarrow> None
      | first # _ \<Rightarrow>
          (case getEmbeddingDimensions db of
             Inl err \<Rightarrow> Some err
           | Inr expectedDim \<Rightarrow>
               (case (case expectedDim of
                        None \<Rightarrow> None
                      | Some d \<Rightarrow>
                          if length first \<noteq> d
                          then Some (GeneratedDimensionMismatch (length first) d) else None) of
                  Some err \<Rightarrow> Some err
                | None \<Rightarrow>
                    if list_ex (\<lambda>emb. length emb \<noteq> length first) generated
                    then Some GeneratedInconsistent
                    else None)))"

text \<open>
  \<open>documentsNeedingEmbeddings.map((doc, index) => ({...doc, embedding:
  generatedEmbeddings[index]}))\<close>: an index past the end of the generated embeddings
  leaves the embedding \<open>undefined\<close>.
\<close>

fun attachEmbeddings_from ::
  "jsnum list list \<Rightarrow> nat \<Rightarrow> VectorDocument list \<Rightarrow> VectorDocument list" where
  "attachEmbeddings_from generated index [] = []"
| "attachEmbeddings_from generated index (doc # rest) =
     doc\<lparr>embedding := (if index < length generated then Some (generated ! index) else None)\<rparr>
       # attachEmbeddings_from generated (Suc index) rest"

text \<open>
  The final dimension check over the documents to be added: the first document fixes
  \<open>firstDocDim\<close>, the loop compares the others with it, and then the table's dimension
  is compared.
\<close>

fun checkBatchDims :: "string \<Rightarrow> nat \<Rightarrow> VectorDocument list \<Rightarrow> error option" where
  "checkBatchDims firstId firstDocDim [] = None"
| "checkBatchDims firstId firstDocDim (doc # rest) =
     (case embedding doc of
        None \<Rightarrow> Some TypeError
      | Some e \<Rightarrow>
          if length e \<noteq> firstDocDim
          then Some (InconsistentBatch firstId firstDocDim (docId doc) (length e))
          else checkBatchDims firstId firstDocDim rest)"

definition finalCheck :: "NeuraDB \<Rightarrow> VectorDocument list \<Rightarrow> error option" where
  "finalCheck db finalDocuments =
     (case getEmbeddingDimensions db of
        Inl err \<Rightarrow> Some err
      | Inr expectedDim \<Rightarrow>
          (case finalDocuments of
             [] \<Rightarrow> None
           | first # others \<Rightarrow>
               (case embedding first of
                  None \<Rightarrow> Some TypeError
                | Some e0 \<Rightarrow>
                    (case checkBatchDims (docId first) (length e0) others of
                       Some err \<Rightarrow> Some err
                     | None \<Rightarrow>
                         (case expectedDim of
                            None \<Rightarrow> None
                          | Some d \<Rightarrow>
                              if length e0 \<noteq> d
                              then Some (BatchDimensionMismatch (length e0) d)
                              else None)))))"

text \<open>
  The write loop. \<open>Map.set\<close> does not throw, so the \<open>catch\<close> block that rolls the
  written documents back is never entered.
\<close>

fun writeDocuments ::
  "int \<Rightarrow> VectorDocument list \<Rightarrow> (string \<times> VectorDocument) list \<Rightarrow>
   (string \<times> VectorDocument) list" where
  "writeDocuments now [] m = m"
| "writeDocuments now (doc # rest) m =
     writeDocuments now rest
       (map_set (docId doc)
          (doc\<lparr>createdAt := Some (case createdAt doc of Some c \<Rightarrow> c | None \<Rightarrow> now),
               updatedAt := Some now\<rparr>) m)"

definition finishAdd ::
  "NeuraDB \<Rightarrow> event list \<Rightarrow> int \<Rightarrow> VectorDocument list \<Rightarrow>
   (error + unit) \<times> NeuraDB \<times> event list" where
  "finishAdd db evs now finalDocuments =
     (case finalCheck db finalDocuments of
        Some err \<Rightarrow> (Inl err, db, evs)
      | None \<Rightarrow>
          (Inr (), db\<lparr>documents := writeDocuments now finalDocuments (documents db)\<rparr>, evs))"

definition addDocuments ::
  "NeuraDB \<Rightarrow> event list \<Rightarrow> int \<Rightarrow> VectorDocument list \<Rightarrow> AddDocumentsOptions \<Rightarrow>
   ((error + unit) \<times> NeuraDB \<times> event list) option" where
  "addDocuments db evs now docs opts =
     (let createEmb = (case opt_createEmbedding opts of None \<Rightarrow> False | Some b \<Rightarrow> b);
          bSize = (case opt_batchSize opts of None \<Rightarrow> defaultBatchSize db | Some n \<Rightarrow> n);
          bDelay = (case opt_batchDelay opts of None \<Rightarrow> batchDelay db | Some n \<Rightarrow> n)
      in
      if length docs = 0 then Some (Inr (), db, evs)
      else
        (case forEach_from (preValidate db docs createEmb) 0 docs of
           Some err \<Rightarrow> Some (Inl err, db, evs)
         | None \<Rightarrow>
             if createEmb then
               (case partitionDocuments db [] [] docs of
                  Inl err \<Rightarrow> Some (Inl err, db, evs)
                | Inr (needing, having) \<Rightarrow>
                    (case generateFor db evs needing bSize bDelay (opt_onProgress opts) of
                       None \<Rightarrow> None
                     | Some (Inl err, evs') \<Rightarrow> Some (Inl err, db, evs')
                     | Some (Inr generated, evs') \<Rightarrow>
                         (case validateGenerated db generated of
                            Some err \<Rightarrow> Some (Inl err, db, evs')
                          | None \<Rightarrow>
                              Some (finishAdd db evs' now
                                      (having @ attachEmbeddings_from generated 0 needing)))))
             else Some (finishAdd db evs now docs)))"

section \<open>Search\<close>

datatype query = QText string | QVector "jsnum list"

definition resolveQuery ::
  "NeuraDB \<Rightarrow> event list \<Rightarrow> query \<Rightarrow> (error + jsnum list) \<times> event list" where
  "resolveQuery db evs q =
     (case q of
        QText s \<Rightarrow> generateEmbedding db evs s
      | QVector v \<Rightarrow> if length v = 0 then (Inl QueryEmpty, evs) else (Inr v, evs))"

definition documentsToSearch ::
  "NeuraDB \<Rightarrow> (string \<times> jsval) list option \<Rightarrow> VectorDocument list" where
  "documentsToSearch db mf =
     (case mf of
        None \<Rightarrow> map_values (documents db)
      | Some flt \<Rightarrow> filterByMetadata (map_values (documents db)) flt)"

text \<open>
  The scoring loop: a document whose similarity cannot be computed is skipped with a
  warning, the others are kept when they reach the threshold.
\<close>

fun scoreDocuments ::
  "jsnum list \<Rightarrow> SimilarityMethod \<Rightarrow> jsnum \<Rightarrow> SearchResult list \<Rightarrow> event list \<Rightarrow>
   VectorDocument list \<Rightarrow> SearchResult list \<times> event list" where
  "scoreDocuments qe method thr results evs [] = (results, evs)"
| "scoreDocuments qe method thr results evs (doc # rest) =
     (case calculateSimilarity qe (embedding doc) method of
        Inl err \<Rightarrow> scoreDocuments qe method thr results (evs @ [Warn (docId doc)]) rest
      | Inr sim \<Rightarrow>
          scoreDocuments qe method thr
            (if js_ge sim thr then results @ [\<lparr>document = doc, similarity = sim\<rparr>] else results)
            evs rest)"

text \<open>\<open>results.sort((a, b) => b.similarity - a.similarity)\<close>.\<close>

definition sortResults :: "SearchResult list \<Rightarrow> SearchResult list" where
  "sortResults results = js_sort (\<lambda>a b. js_sub (similarity b) (similarity a)) results"

text \<open>
  The results of a query vector before pagination (\<open>sortedResults\<close> in the source),
  with the warnings of the scoring loop.
\<close>

definition sortedResults ::
  "NeuraDB \<Rightarrow> event list \<Rightarrow> jsnum list \<Rightarrow> SearchOptions \<Rightarrow> SearchResult list \<times> event list" where
  "sortedResults db evs queryEmbedding opts =
     (case scoreDocuments queryEmbedding
             (case similarityMethod opts of None \<Rightarrow> Cosine | Some m \<Rightarrow> m)
             (case threshold opts of None \<Rightarrow> Num 0 | Some t \<Rightarrow> t)
             [] evs (documentsToSearch db (metadataFilter opts)) of
        (results, evs') \<Rightarrow> (sortResults results, evs'))"

definition search ::
  "NeuraDB \<Rightarrow> event list \<Rightarrow> query \<Rightarrow> SearchOptions \<Rightarrow> (error + SearchResult list) \<times> event list" where
  "search db evs q opts =
     (if length (documents db) = 0 then (Inr [], evs)
      else
        (case resolveQuery db evs q of
           (Inl err, evs1) \<Rightarrow> (Inl err, evs1)
         | (Inr queryEmbedding, evs1) \<Rightarrow>
             (case sortedResults db evs1 queryEmbedding opts of
                (sortedRes, evs2) \<Rightarrow>
                  (case pageSize opts of
                     Some ps \<Rightarrow>
                       (let startIdx = ((case page opts of None \<Rightarrow> 1 | Some p \<Rightarrow> p) - 1) * ps
                        in (Inr (js_slice sortedRes startIdx (startIdx + ps)), evs2))
                   | None \<Rightarrow>
                       (Inr (js_slice sortedRes 0 (case limit opts of None \<Rightarrow> 10 | Some l \<Rightarrow> l)),
                        evs2)))))"

record PaginatedResults =
  res_data :: "SearchResult list"
  res_page :: int
  res_pageSize :: int
  totalResults :: nat
  totalPages :: jsnum

definition searchWithPagination ::
  "NeuraDB \<Rightarrow> event list \<Rightarrow> query \<Rightarrow> SearchOptions \<Rightarrow> (error + PaginatedResults) \<times> event list" where
  "searchWithPagination db evs q opts =
     (let pg = (case page opts of None \<Rightarrow> 1 | Some p \<Rightarrow> p);
          ps = (case pageSize opts of None \<Rightarrow> 10 | Some n \<Rightarrow> n)
      in
      if length (documents db) = 0 then
        (Inr \<lparr>res_data = [], res_page = pg, res_pageSize = ps, totalResults = 0,
              totalPages = Num 0\<rparr>, evs)
      else
        (case resolveQuery db evs q of
           (Inl err, evs1) \<Rightarrow> (Inl err, evs1)
         | (Inr queryEmbedding, evs1) \<Rightarrow>
             (case sortedResults db evs1 queryEmbedding opts of
                (sortedRes, evs2) \<Rightarrow>
                  (let startIdx = (pg - 1) * ps in
                   (Inr \<lparr>res_data = js_slice sortedRes startIdx (startIdx + ps),
                         res_page = pg, res_pageSize = ps,
                         totalResults = length sortedRes,
                         totalPages =
                           js_ceil (js_div (Num (of_nat (length sortedRes))) (Num (of_int ps)))\<rparr>,
                    evs2)))))"

definition findMostSimilar ::
  "NeuraDB \<Rightarrow> event list \<Rightarrow> query \<Rightarrow> SimilarityMethod \<Rightarrow>
   (error + SearchResult option) \<times> event list" where
  "findMostSimilar db evs q method =
     (case search db evs q
             \<lparr>limit = Some 1, threshold = None, similarityMethod = Some method,
              metadataFilter = None, page = None, pageSize = None\<rparr> of
        (Inl err, evs') \<Rightarrow> (Inl err, evs')
      | (Inr results, evs') \<Rightarrow>
          (case results of [] \<Rightarrow> (Inr None, evs') | r # _ \<Rightarrow> (Inr (Some r), evs')))"

section \<open>The earlier class \<open>VectorStore\<close>\<close>

text \<open>
  The same file also holds the class \<open>VectorStore\<close>, whose documents carry pre-computed
  embeddings only. Its \<open>search\<close> takes a vector, has no pagination, and starts with two
  guards that throw the same error.
\<close>

definition VectorStore_search ::
  "(string \<times> VectorDocument) list \<Rightarrow> event list \<Rightarrow> jsnum list \<Rightarrow> SearchOptions \<Rightarrow>
   (error + SearchResult list) \<times> event list" where
  "VectorStore_search docs evs queryEmbedding opts =
     (if length docs = 0 then (Inl QueryEmpty, evs)
      else if length queryEmbedding = 0 then (Inl QueryEmpty, evs)
      else
        (case scoreDocuments queryEmbedding
                (case similarityMethod opts of None \<Rightarrow> Cosine | Some m \<Rightarrow> m)
                (case threshold opts of None \<Rightarrow> Num 0 | Some t \<Rightarrow> t)
                [] evs
                (case metadataFilter opts of
                   None \<Rightarrow> map_values docs
                 | Some flt \<Rightarrow> filterByMetadata (map_values docs) flt) of
           (results, evs') \<Rightarrow>
             (Inr (js_slice (sortResults results) 0
                     (case limit opts of None \<Rightarrow> 10 | Some l \<Rightarrow> l)), evs')))"

text \<open>A document as \<open>addDocument\<close> and \<open>addDocuments\<close> write it at time \<open>now\<close>.\<close>

definition stamp :: "int \<Rightarrow> VectorDocument \<Rightarrow> VectorDocument" where
  "stamp now d =
     d\<lparr>createdAt := Some (case createdAt d of Some c \<Rightarrow> c | None \<Rightarrow> now), updatedAt := Some now\<rparr>"

section \<open>Reachable states\<close>

text \<open>
  The public operations of the store. \<open>perform\<close> gives the store and the event log
  after an operation, whether it returned or threw; \<open>None\<close> when it does not return.
  The reachable states are those that a sequence of operations, each with its own clock
  reading, produces from a newly constructed store.
\<close>

datatype operation =
    AddDocument VectorDocument bool
  | AddDocuments "VectorDocument list" AddDocumentsOptions
  | UpdateDocument VectorDocument bool
  | RemoveDocument string
  | Clear
  | Search query SearchOptions
  | SearchWithPagination query SearchOptions
  | FindMostSimilar query SimilarityMethod
  | GenerateEmbedding string
  | GenerateEmbeddings "string list" int int
  | SetEmbeddingModel string
  | SetDefaultBatchSize int
  | SetDefaultBatchDelay int

fun perform :: "NeuraDB \<Rightarrow> event list \<Rightarrow> int \<Rightarrow> operation \<Rightarrow> (NeuraDB \<times> event list) option" where
  "perform db evs now (AddDocument doc ce) = Some (snd (addDocument db evs now doc ce))"
| "perform db evs now (AddDocuments docs opts) = map_option snd (addDocuments db evs now docs opts)"
| "perform db evs now (UpdateDocument doc ce) = Some (snd (updateDocument db evs now doc ce))"
| "perform db evs now (RemoveDocument k) = Some (snd (removeDocument db k), evs)"
| "perform db evs now Clear = Some (clear db, evs)"
| "perform db evs now (Search q opts) = Some (db, snd (search db evs q opts))"
| "perform db evs now (SearchWithPagination q opts) =
     Some (db, snd (searchWithPagination db evs q opts))"
| "perform db evs now (FindMostSimilar q method) = Some (db, snd (findMostSimilar db evs q method))"
| "perform db evs now (GenerateEmbedding t) = Some (db, snd (generateEmbedding db evs t))"
| "perform db evs now (GenerateEmbeddings texts bSize bDelay) =
     map_option (\<lambda>r. (db, snd r)) (generateEmbeddings db evs texts bSize bDelay)"
| "perform db evs now (SetEmbeddingModel model) = Some (setEmbeddingModel db model, evs)"
| "perform db evs now (SetDefaultBatchSize n) = Some (snd (setDefaultBatchSize db n), evs)"
| "perform db evs now (SetDefaultBatchDelay n) = Some (snd (setDefaultBatchDelay db n), evs)"

inductive reachable :: "NeuraDB \<Rightarrow> event list \<Rightarrow> bool" where
  start: "reachable (new_NeuraDB oa model bs bd) []"
| step: "reachable db evs \<Longrightarrow> perform db evs now op = Some (db', evs') \<Longrightarrow> reachable db' evs'"

text \<open>
  The dimension invariant: any two documents of the table have embeddings, and of the
  same length.
\<close>

definition has_dimension :: "nat \<Rightarrow> VectorDocument \<Rightarrow> bool" where
  "has_dimension n d = (case embedding d of None \<Rightarrow> False | Some e \<Rightarrow> length e = n)"

definition dim_invariant :: "NeuraDB \<Rightarrow> bool" where
  "dim_invariant db =
     (\<forall>d\<in>set (getAllDocuments db). \<forall>d'\<in>set (getAllDocuments db).
        \<exists>n. has_dimension n d \<and> has_dimension n d')"

section \<open>The surviving results, as a list\<close>

text \<open>
  What the scoring loop keeps, document by document: the documents whose similarity can
  be computed and reaches the threshold, in the order of the candidates.
\<close>

fun surviving ::
  "jsnum list \<Rightarrow> SimilarityMethod \<Rightarrow> jsnum \<Rightarrow> VectorDocument list \<Rightarrow> SearchResult list" where
  "surviving qe method thr [] = []"
| "surviving qe method thr (doc # rest) =
     (case calculateSimilarity qe (embedding doc) method of
        Inl err \<Rightarrow> surviving qe method thr rest
      | Inr sim \<Rightarrow>
          if js_ge sim thr then \<lparr>document = doc, similarity = sim\<rparr> # surviving qe method thr rest
          else surviving qe method thr rest)"

text \<open>The surviving results of a query vector under the options of a search.\<close>

definition survivors :: "NeuraDB \<Rightarrow> jsnum list \<Rightarrow> SearchOptions \<Rightarrow> SearchResult list" where
  "survivors db qe opts =
     surviving qe
       (case similarityMethod opts of None \<Rightarrow> Cosine | Some m \<Rightarrow> m)
       (case threshold opts of None \<Rightarrow> Num 0 | Some t \<Rightarrow> t)
       (documentsToSearch db (metadataFilter opts))"

text \<open>The comparator of \<open>sortResults\<close>.\<close>

abbreviation by_similarity :: "SearchResult \<Rightarrow> SearchResult \<Rightarrow> jsnum" where
  "by_similarity \<equiv> (\<lambda>a b. js_sub (similarity b) (similarity a))"


section \<open>Batches, as lists\<close>

text \<open>
  The chunks of size \<open>k\<close> of a list, written as slices: chunk \<open>i\<close> holds the elements
  from position \<open>i * k\<close> up to, not including, position \<open>(i + 1) * k\<close>.
\<close>

definition chunks_of :: "nat \<Rightarrow> 'a list \<Rightarrow> 'a list list" where
  "chunks_of k xs = map (\<lambda>i. take k (drop (i * k) xs)) [0..<(length xs + k - 1) div k]"

text \<open>
  The events of a batch run that succeeds: one provider call per chunk, in order, with
  the delay (when it is positive) between two consecutive chunks and none after the last.
\<close>

definition delay_events :: "int \<Rightarrow> event list" where
  "delay_events d = (if 0 < d then [Delay d] else [])"

fun batch_trace :: "string \<Rightarrow> int \<Rightarrow> string list list \<Rightarrow> event list" where
  "batch_trace model d [] = []"
| "batch_trace model d [c] = [EmbedCall (Many c) model]"
| "batch_trace model d (c # c' # cs) =
     EmbedCall (Many c) model # delay_events d @ batch_trace model d (c' # cs)"

text \<open>
  The answers of the provider to the chunks sent in that order, each call seeing the
  events before it.
\<close>

fun batch_responses ::
  "OpenAIInstance \<Rightarrow> string \<Rightarrow> int \<Rightarrow> event list \<Rightarrow> string list list \<Rightarrow>
   (string + (jsnum list \<times> int) list) list" where
  "batch_responses create model d evs [] = []"
| "batch_responses create model d evs (c # cs) =
     create evs (Many c) model
       # batch_responses create model d (evs @ EmbedCall (Many c) model # delay_events d) cs"

definition answered :: "string + (jsnum list \<times> int) list \<Rightarrow> bool" where
  "answered r = (case r of Inl msg \<Rightarrow> False | Inr data \<Rightarrow> True)"

definition is_call :: "event \<Rightarrow> bool" where
  "is_call e = (case e of EmbedCall inp m \<Rightarrow> True | _ \<Rightarrow> False)"

definition is_delay :: "event \<Rightarrow> bool" where
  "is_delay e = (case e of Delay d \<Rightarrow> True | _ \<Rightarrow> False)"

section \<open>Conflicts of ids in a batch\<close>

text \<open>
  The words used about a batch given to \<open>addDocuments\<close>. A document has a blank id when
  the id is empty or white space only. The document at index \<open>i\<close> shares its id with the
  one at index \<open>j\<close> when \<open>j\<close> is another index of the batch that carries the same id,
  and \<open>j\<close> is the first such index when no smaller one does. The document at index \<open>i\<close>
  is in conflict when it shares its id with another document of the batch or when its id
  is held by the table. It fails a check when its id is blank, when it is in conflict, or
  when the check of its content or embedding raises an error.
\<close>

definition blank_id :: "VectorDocument \<Rightarrow> bool" where
  "blank_id d = (docId d = [] \<or> is_blank (docId d))"

definition shares_id :: "VectorDocument list \<Rightarrow> nat \<Rightarrow> nat \<Rightarrow> bool" where
  "shares_id docs i j = (j < length docs \<and> j \<noteq> i \<and> docId (docs ! j) = docId (docs ! i))"

definition first_sharing :: "VectorDocument list \<Rightarrow> nat \<Rightarrow> nat \<Rightarrow> bool" where
  "first_sharing docs i j = (shares_id docs i j \<and> (\<forall>k\<in>{0..<j}. \<not> shares_id docs i k))"

definition conflicting :: "NeuraDB \<Rightarrow> VectorDocument list \<Rightarrow> nat \<Rightarrow> bool" where
  "conflicting db docs i =
     ((\<exists>j\<in>{0..<length docs}. shares_id docs i j) \<or> hasDocument db (docId (docs ! i)))"

definition fails_check :: "NeuraDB \<Rightarrow> VectorDocument list \<Rightarrow> bool \<Rightarrow> nat \<Rightarrow> bool" where
  "fails_check db docs createEmb i =
     (blank_id (docs ! i) \<or> conflicting db docs i \<or>
      embeddingCheck db createEmb i (docs ! i) \<noteq> None)"

text \<open>
  The errors of the kind \<open>DuplicateId\<close>: an id used twice in the batch, or an id that
  the table holds already.
\<close>

definition duplicate_kind :: "error \<Rightarrow> bool" where
  "duplicate_kind e =
     (case e of DuplicateID k i j \<Rightarrow> True | AlreadyExists k \<Rightarrow> True | _ \<Rightarrow> False)"

section \<open>Example data\<close>

definition no_options :: SearchOptions where
  "no_options =
     \<lparr>limit = None, threshold = None, similarityMethod = None, metadataFilter = None,
      page = None, pageSize = None\<rparr>"

definition empty_db :: NeuraDB where
  "empty_db = new_NeuraDB None None None None"

definition doc_of :: "string \<Rightarrow> jsnum list \<Rightarrow> VectorDocument" where
  "doc_of k e =
     \<lparr>docId = k, content = ''Hello world'', embedding = Some e, metadata = None,
      createdAt = None, updatedAt = None\<rparr>"

definition stored :: "VectorDocument \<Rightarrow> int \<Rightarrow> int \<Rightarrow> VectorDocument" where
  "stored d c u = d\<lparr>createdAt := Some c, updatedAt := Some u\<rparr>"

definition text_doc :: "string \<Rightarrow> string \<Rightarrow> VectorDocument" where
  "text_doc k c =
     \<lparr>docId = k, content = c, embedding = None, metadata = None,
      createdAt = None, updatedAt = None\<rparr>"

definition add_options :: "bool \<Rightarrow> int option \<Rightarrow> int option \<Rightarrow> bool \<Rightarrow> AddDocumentsOptions" where
  "add_options ce bs bd prog =
     \<lparr>opt_createEmbedding = Some ce, opt_batchSize = bs, opt_batchDelay = bd,
      opt_onProgress = prog\<rparr>"

definition db_of :: "VectorDocument list \<Rightarrow> NeuraDB" where
  "db_of ds = empty_db\<lparr>documents := map (\<lambda>d. (docId d, d)) ds\<rparr>"

definition three_docs :: NeuraDB where
  "three_docs =
     db_of [stored (doc_of ''a'' [Num 1]) 0 0, stored (doc_of ''b'' [Num 3]) 0 0,
            stored (doc_of ''c'' [Num 1]) 0 0]"

definition dot_options :: SearchOptions where
  "dot_options = no_options\<lparr>similarityMethod := Some Dot\<rparr>"

definition result_of :: "string \<Rightarrow> real \<Rightarrow> SearchResult" where
  "result_of k x = \<lparr>document = stored (doc_of k [Num x]) 0 0, similarity = Num x\<rparr>"



definition mock_openai :: OpenAIInstance where
  "mock_openai evs inp model =
     Inr (case inp of
            One t \<Rightarrow> [([Num 0], 0)]
          | Many ts \<Rightarrow> rev (map (\<lambda>i. ([Num (of_nat i)], int i)) [0..<length ts]))"

definition mock_db :: NeuraDB where
  "mock_db = new_NeuraDB (Some mock_openai) None None None"

definition texts15 :: "string list" where
  "texts15 = [''a'', ''b'', ''c'', ''d'', ''e'', ''f'', ''g'', ''h'', ''i'', ''j'',
              ''k'', ''l'', ''m'', ''n'', ''o'']"

definition docs3 :: "VectorDocument list" where
  "docs3 = [text_doc ''doc1'' ''Content 1'', text_doc ''doc2'' ''Content 2'',
            text_doc ''doc3'' ''Content 3'']"

definition added :: "string \<Rightarrow> string \<Rightarrow> real \<Rightarrow> int \<Rightarrow> string \<times> VectorDocument" where
  "added k c x now = (k, (text_doc k c)\<lparr>embedding := Some [Num x], createdAt := Some now, updatedAt := Some now\<rparr>)"

lemmas run_defs =
  addDocument_def updateDocument_def removeDocument_def clear_def empty_db_def
  new_NeuraDB_def doc_of_def stored_def db_of_def resolveEmbedding_def validateDocument_def
  checkDimensions_def validateEmbeddingDimensions_def getEmbeddingDimensions_def
  map_values_def map_has_def map_get_def map_delete_def getDocument_def hasDocument_def
  no_options_def

section \<open>Basic facts about the table\<close>

lemma map_get_map_set_same [simp]: "map_get k (map_set k v m) = Some v"
  by (induction m) (auto simp: map_get_def)

lemma map_get_map_set_other [simp]: "k' \<noteq> k \<Longrightarrow> map_get k' (map_set k v m) = map_get k' m"
  by (induction m) (auto simp: map_get_def)

lemma resolveEmbedding_keeps:
  "resolveEmbedding db evs doc ce = (Inr fd, evs') \<Longrightarrow>
     docId fd = docId doc \<and> createdAt fd = createdAt doc"
  by (auto simp: resolveEmbedding_def split: if_splits prod.splits sum.splits)

section \<open>Search on an empty store\<close>

lemma search_empty_store:
  "documents db = [] \<Longrightarrow> search db evs q opts = (Inr [], evs)"
  by (simp add: search_def)

lemma searchWithPagination_empty_store:
  "documents db = [] \<Longrightarrow>
     searchWithPagination db evs q opts =
       (Inr \<lparr>res_data = [],
             res_page = (case page opts of None \<Rightarrow> 1 | Some p \<Rightarrow> p),
             res_pageSize = (case pageSize opts of None \<Rightarrow> 10 | Some n \<Rightarrow> n),
             totalResults = 0, totalPages = Num 0\<rparr>, evs)"
  by (simp add: searchWithPagination_def)

text \<open>
  Claim C2: on a store with no documents, \<open>search\<close> returns an empty result and raises
  no error. \<open>NeuraDB.search\<close> does so (\<open>search_empty_store\<close>). \<open>VectorStore.search\<close>
  does not: its guard for the empty store throws the error of the empty query, for any
  query.
\<close>

theorem VectorStore_search_empty_store_throws:
  "VectorStore_search [] [] [Num 1, Num 0, Num 0] no_options = (Inl QueryEmpty, [])"
  by (simp add: VectorStore_search_def)

section \<open>Search with an empty query vector\<close>

text \<open>
  The empty-store guard of \<open>NeuraDB.search\<close> comes before the query is looked at: an
  empty query vector on an empty store is answered with the empty result.
\<close>

theorem search_empty_query_on_empty_store:
  "search empty_db [] (QVector []) no_options = (Inr [], [])"
  by (simp add: search_def empty_db_def new_NeuraDB_def)

text \<open>
  Claim C3, amended: on every store that holds at least one document, \<open>search\<close> and
  \<open>searchWithPagination\<close> with an empty query vector fail with the error "Query embedding
  must be provided and non-empty", whatever the options, and log nothing.
\<close>

theorem search_empty_query_nonempty_store:
  assumes "documents db \<noteq> []"
  shows "search db evs (QVector []) opts = (Inl QueryEmpty, evs) \<and>
         searchWithPagination db evs (QVector []) opts = (Inl QueryEmpty, evs)"
  using assms by (simp add: search_def searchWithPagination_def resolveQuery_def Let_def)

theorem search_empty_query_nonempty_store_witness:
  "documents (db_of [doc_of ''doc1'' [Num 1, Num 2, Num 3]]) \<noteq> [] \<and>
   search (db_of [doc_of ''doc1'' [Num 1, Num 2, Num 3]]) [] (QVector []) no_options
     = (Inl QueryEmpty, []) \<and>
   searchWithPagination (db_of [doc_of ''doc1'' [Num 1, Num 2, Num 3]]) [] (QVector [])
     no_options = (Inl QueryEmpty, [])"
proof -
  have ne: "documents (db_of [doc_of ''doc1'' [Num 1, Num 2, Num 3]]) \<noteq> []"
    by (simp add: db_of_def)
  show ?thesis
    using ne search_empty_query_nonempty_store [OF ne, of "[]" no_options] by simp
qed

section \<open>The empty metadata filter\<close>

lemma matchesFilter_empty: "matchesFilter [] = (\<lambda>doc. metadata doc \<noteq> None)"
  by (rule ext) (simp add: matchesFilter_def split: option.splits)

text \<open>
  Claim C10: with an empty filter object, \<open>getDocumentsByMetadata\<close> returns exactly the
  stored documents that have a \<open>metadata\<close> field, in table order, and the candidates of
  a \<open>search\<close> with the empty \<open>metadataFilter\<close> are the same documents: a document with
  metadata (even an empty object) passes, a document without is rejected before any key
  is compared.
\<close>

theorem empty_filter_selects_documents_with_metadata:
  "getDocumentsByMetadata db [] = filter (\<lambda>d. metadata d \<noteq> None) (getAllDocuments db) \<and>
   documentsToSearch db (Some []) = filter (\<lambda>d. metadata d \<noteq> None) (getAllDocuments db) \<and>
   matchesFilter [] (d\<lparr>metadata := Some md\<rparr>) \<and>
   \<not> matchesFilter flt (d\<lparr>metadata := None\<rparr>)"
  by (simp add: getDocumentsByMetadata_def documentsToSearch_def filterByMetadata_def
      getAllDocuments_def matchesFilter_empty) (simp add: matchesFilter_def)

section \<open>Duplicate ids in a batch\<close>

lemma forEach_from_None_iff:
  "forEach_from f i xs = None \<longleftrightarrow> (\<forall>j<length xs. f (i + j) (xs ! j) = None)"
proof (induction xs arbitrary: i)
  case Nil
  then show ?case by simp
next
  case (Cons x xs)
  show ?case
  proof (cases "f i x")
    case None
    have "(\<forall>j<Suc (length xs). f (i + j) ((x # xs) ! j) = None) \<longleftrightarrow>
          (f i x = None \<and> (\<forall>j<length xs. f (Suc i + j) (xs ! j) = None))"
      by (auto simp: less_Suc_eq_0_disj)
    with None Cons.IH [of "Suc i"] show ?thesis by simp
  next
    case (Some e)
    then have "\<not> (\<forall>j<length (x # xs). f (i + j) ((x # xs) ! j) = None)"
      by (auto intro!: exI [of _ 0])
    with Some show ?thesis by simp
  qed
qed

lemma forEach_from_Some:
  "forEach_from f i xs = Some e \<Longrightarrow>
     \<exists>j<length xs. f (i + j) (xs ! j) = Some e \<and> (\<forall>k<j. f (i + k) (xs ! k) = None)"
proof (induction xs arbitrary: i)
  case Nil
  then show ?case by simp
next
  case (Cons x xs)
  show ?case
  proof (cases "f i x")
    case None
    with Cons.prems have "forEach_from f (Suc i) xs = Some e" by simp
    from Cons.IH [OF this] obtain j where j: "j < length xs"
      "f (Suc i + j) (xs ! j) = Some e" "\<forall>k<j. f (Suc i + k) (xs ! k) = None" by blast
    have "\<forall>k<Suc j. f (i + k) ((x # xs) ! k) = None"
      using None j(3) by (auto simp: less_Suc_eq_0_disj)
    with j(1,2) show ?thesis by (intro exI [of _ "Suc j"]) auto
  next
    case (Some e')
    with Cons.prems show ?thesis by (intro exI [of _ 0]) auto
  qed
qed

lemma findIndex_from_None_iff:
  "findIndex_from p i xs = None \<longleftrightarrow> (\<forall>j<length xs. \<not> p (i + j) (xs ! j))"
proof (induction xs arbitrary: i)
  case Nil
  then show ?case by simp
next
  case (Cons x xs)
  have "(\<forall>j<Suc (length xs). \<not> p (i + j) ((x # xs) ! j)) \<longleftrightarrow>
        (\<not> p i x \<and> (\<forall>j<length xs. \<not> p (Suc i + j) (xs ! j)))"
    by (auto simp: less_Suc_eq_0_disj)
  with Cons.IH [of "Suc i"] show ?case by simp
qed

lemma findIndex_from_Some:
  "findIndex_from p i xs = Some r \<Longrightarrow>
     \<exists>j<length xs. r = i + j \<and> p (i + j) (xs ! j) \<and> (\<forall>k<j. \<not> p (i + k) (xs ! k))"
proof (induction xs arbitrary: i)
  case Nil
  then show ?case by simp
next
  case (Cons x xs)
  show ?case
  proof (cases "p i x")
    case True
    with Cons.prems show ?thesis by (intro exI [of _ 0]) auto
  next
    case False
    with Cons.prems have "findIndex_from p (Suc i) xs = Some r" by simp
    from Cons.IH [OF this] obtain j where j: "j < length xs" "r = Suc i + j"
      "p (Suc i + j) (xs ! j)" "\<forall>k<j. \<not> p (Suc i + k) (xs ! k)" by blast
    have "\<forall>k<Suc j. \<not> p (i + k) ((x # xs) ! k)"
      using False j(4) by (auto simp: less_Suc_eq_0_disj)
    with j(1,2,3) show ?thesis by (intro exI [of _ "Suc j"]) auto
  qed
qed

lemma findIndex_None_iff: "findIndex p xs = None \<longleftrightarrow> (\<forall>j<length xs. \<not> p j (xs ! j))"
  using findIndex_from_None_iff [of p 0 xs] by (simp add: findIndex_def)

lemma findIndex_Some:
  "findIndex p xs = Some r \<Longrightarrow> r < length xs \<and> p r (xs ! r) \<and> (\<forall>k<r. \<not> p k (xs ! k))"
  using findIndex_from_Some [of p 0 xs r] by (auto simp: findIndex_def)

lemma preValidate_conflict:
  assumes "i < length docs" "j < length docs" "i \<noteq> j" "docId (docs ! i) = docId (docs ! j)"
  shows "preValidate db docs ce i (docs ! i) \<noteq> None"
proof -
  have "findIndex (\<lambda>otherIndex otherDoc. otherIndex \<noteq> i \<and> docId otherDoc = docId (docs ! i)) docs \<noteq> None"
    using assms by (auto simp: findIndex_None_iff)
  then show ?thesis by (auto simp: preValidate_def)
qed

lemma preValidate_exists:
  assumes "map_has (docId d) (documents db)"
  shows "preValidate db docs ce i d \<noteq> None"
  using assms by (auto simp: preValidate_def split: option.splits)

lemma prevalidation_fails:
  assumes "\<not> distinct (map docId docs) \<or> (\<exists>d\<in>set docs. hasDocument db (docId d))"
  shows "forEach_from (preValidate db docs ce) 0 docs \<noteq> None"
proof -
  have "\<exists>i<length docs. preValidate db docs ce i (docs ! i) \<noteq> None"
    using assms
  proof
    assume "\<not> distinct (map docId docs)"
    then obtain i j where "i < length docs" "j < length docs" "i \<noteq> j"
      "docId (docs ! i) = docId (docs ! j)"
      by (auto simp: distinct_conv_nth)
    then show ?thesis using preValidate_conflict by blast
  next
    assume "\<exists>d\<in>set docs. hasDocument db (docId d)"
    then obtain i where "i < length docs" "map_has (docId (docs ! i)) (documents db)"
      by (auto simp: in_set_conv_nth hasDocument_def)
    then show ?thesis using preValidate_exists by blast
  qed
  then show ?thesis by (auto simp: forEach_from_None_iff)
qed

lemma findIndex_shares:
  "findIndex (\<lambda>otherIndex otherDoc. otherIndex \<noteq> i \<and> docId otherDoc = docId (docs ! i)) docs = None
     \<longleftrightarrow> \<not> (\<exists>j\<in>{0..<length docs}. shares_id docs i j)"
  by (auto simp: findIndex_None_iff shares_id_def)

lemma findIndex_first_sharing:
  "findIndex (\<lambda>otherIndex otherDoc. otherIndex \<noteq> i \<and> docId otherDoc = docId (docs ! i)) docs = Some j
     \<longleftrightarrow> first_sharing docs i j"
proof
  assume "findIndex (\<lambda>otherIndex otherDoc. otherIndex \<noteq> i \<and> docId otherDoc = docId (docs ! i)) docs = Some j"
  from findIndex_Some [OF this] show "first_sharing docs i j"
    by (auto simp: first_sharing_def shares_id_def)
next
  assume fs: "first_sharing docs i j"
  let ?p = "\<lambda>otherIndex otherDoc. otherIndex \<noteq> i \<and> docId otherDoc = docId (docs ! i)"
  from fs have "findIndex ?p docs \<noteq> None"
    by (auto simp: findIndex_None_iff first_sharing_def shares_id_def)
  then obtain r where r: "findIndex ?p docs = Some r" by auto
  from findIndex_Some [OF r] have r': "r < length docs" "r \<noteq> i" "docId (docs ! r) = docId (docs ! i)"
    "\<forall>k<r. \<not> (k \<noteq> i \<and> docId (docs ! k) = docId (docs ! i))" by auto
  have "r = j"
  proof (rule ccontr)
    assume "r \<noteq> j"
    then consider "r < j" | "j < r" by linarith
    then show False
    proof cases
      case 1
      from fs have "\<forall>k\<in>{0..<j}. \<not> shares_id docs i k" by (simp add: first_sharing_def)
      with 1 have "\<not> shares_id docs i r" by simp
      with r'(1,2,3) show False by (simp add: shares_id_def)
    next
      case 2
      with fs r'(4) show False by (auto simp: first_sharing_def shares_id_def)
    qed
  qed
  with r show "findIndex ?p docs = Some j" by simp
qed

lemma preValidate_None_iff:
  "preValidate db docs ce i (docs ! i) = None \<longleftrightarrow> \<not> fails_check db docs ce i"
proof (cases "findIndex (\<lambda>otherIndex otherDoc. otherIndex \<noteq> i \<and> docId otherDoc = docId (docs ! i)) docs")
  case None
  with findIndex_shares [of i docs] have "\<not> (\<exists>j\<in>{0..<length docs}. shares_id docs i j)" by simp
  with None show ?thesis
    by (auto simp: preValidate_def fails_check_def blank_id_def conflicting_def hasDocument_def)
next
  case (Some j)
  with findIndex_shares [of i docs] have "\<exists>j\<in>{0..<length docs}. shares_id docs i j" by simp
  with Some show ?thesis
    by (auto simp: preValidate_def fails_check_def blank_id_def conflicting_def hasDocument_def)
qed

lemma preValidate_error:
  assumes "preValidate db docs ce i (docs ! i) = Some e"
  shows "(blank_id (docs ! i) \<longrightarrow> e = InvalidIDAtIndex i) \<and>
         (\<not> blank_id (docs ! i) \<longrightarrow>
            (\<forall>j. first_sharing docs i j \<longrightarrow> e = DuplicateID (docId (docs ! i)) i j)) \<and>
         (\<not> blank_id (docs ! i) \<and> \<not> (\<exists>j\<in>{0..<length docs}. shares_id docs i j) \<and>
            hasDocument db (docId (docs ! i)) \<longrightarrow> e = AlreadyExists (docId (docs ! i))) \<and>
         (\<not> blank_id (docs ! i) \<and> \<not> conflicting db docs i \<longrightarrow>
            embeddingCheck db ce i (docs ! i) = Some e)"
proof (cases "findIndex (\<lambda>otherIndex otherDoc. otherIndex \<noteq> i \<and> docId otherDoc = docId (docs ! i)) docs")
  case None
  with findIndex_shares [of i docs] have no: "\<not> (\<exists>j\<in>{0..<length docs}. shares_id docs i j)" by simp
  then have "\<And>j. \<not> first_sharing docs i j"
    by (auto simp: first_sharing_def shares_id_def)
  with None no assms show ?thesis
    by (auto simp: preValidate_def blank_id_def conflicting_def hasDocument_def split: if_splits)
next
  case (Some r)
  have fs: "first_sharing docs i j \<longleftrightarrow> j = r" for j
    unfolding findIndex_first_sharing [of i docs j, symmetric] Some by auto
  from Some findIndex_shares [of i docs] have "\<exists>j\<in>{0..<length docs}. shares_id docs i j" by simp
  with Some fs assms show ?thesis
    by (auto simp: preValidate_def blank_id_def conflicting_def split: if_splits)
qed

lemma embeddingCheck_kind:
  "embeddingCheck db ce i d = Some e \<Longrightarrow> \<not> duplicate_kind e"
  by (auto simp: embeddingCheck_def getEmbeddingDimensions_def duplicate_kind_def
      split: if_splits option.splits sum.splits list.splits)

lemma preValidate_kind:
  assumes "preValidate db docs ce i (docs ! i) = Some e"
  shows "duplicate_kind e \<longleftrightarrow> \<not> blank_id (docs ! i) \<and> conflicting db docs i"
proof (cases "findIndex (\<lambda>otherIndex otherDoc. otherIndex \<noteq> i \<and> docId otherDoc = docId (docs ! i)) docs")
  case None
  with findIndex_shares [of i docs] have no: "\<not> (\<exists>j\<in>{0..<length docs}. shares_id docs i j)" by simp
  with None assms show ?thesis
    by (auto simp: preValidate_def blank_id_def conflicting_def hasDocument_def duplicate_kind_def
        split: if_splits dest: embeddingCheck_kind)
next
  case (Some r)
  from Some findIndex_shares [of i docs] have "\<exists>j\<in>{0..<length docs}. shares_id docs i j" by simp
  with Some assms show ?thesis
    by (auto simp: preValidate_def blank_id_def conflicting_def duplicate_kind_def split: if_splits)
qed

lemma addDocuments_prevalidation_error:
  assumes "forEach_from (preValidate db docs (case opt_createEmbedding opts of None \<Rightarrow> False | Some b \<Rightarrow> b)) 0 docs = Some e"
  shows "addDocuments db evs now docs opts = Some (Inl e, db, evs)"
proof -
  from assms have "docs \<noteq> []" by auto
  with assms show ?thesis by (simp add: addDocuments_def Let_def)
qed


lemmas batch_defs =
  addDocuments_def preValidate_def embeddingCheck_def findIndex_def is_ws_def is_ws2_def
  is_ws3_def
  text_doc_def add_options_def Let_def

text \<open>
  The checks run document by document, so an invalid document that comes before the
  duplicated ones decides the error: here the document at index 0 has no embedding, the
  documents at indices 1 and 2 share their id, and the call fails with the error of
  index 0.
\<close>

theorem addDocuments_duplicate_other_error_first:
  "\<not> distinct (map docId [text_doc ''a'' ''x'', doc_of ''doc1'' [Num 1], doc_of ''doc1'' [Num 2]]) \<and>
   addDocuments empty_db [] 0
     [text_doc ''a'' ''x'', doc_of ''doc1'' [Num 1], doc_of ''doc1'' [Num 2]]
     (add_options False None None False)
     = Some (Inl (EmbeddingRequiredAt 0 ''a''), empty_db, [])"
  by (simp add: batch_defs run_defs)

text \<open>
  The id that consists of a no-break space (U+00A0, the bytes \<open>C2 A0\<close>) is blank:
  \<open>trim\<close> removes it, so two documents that carry it fail with the invalid-id error of
  index 0, not with the duplicate-id error.
\<close>

lemma addDocuments_no_break_space_id:
  "addDocuments empty_db [] 0
     [doc_of [CHR 0xC2, CHR 0xA0] [Num 1], doc_of [CHR 0xC2, CHR 0xA0] [Num 2]]
     (add_options False None None False)
     = Some (Inl (InvalidIDAtIndex 0), empty_db, [])"
  by (simp add: batch_defs run_defs)

text \<open>
  Claim C8, amended: if two input documents share an id, or an input id is in the table,
  \<open>addDocuments\<close> fails during its early validation: no provider call is made (the log
  is unchanged) and the store is unchanged. The error is the one of the first failing
  check in document order: it is raised for the first index \<open>i\<close> whose document fails a
  check, which is at or before every document in conflict, and it is of the kind
  \<open>DuplicateId\<close> exactly when that document is in conflict and its id is not blank,
  whatever comes after it. For the document at \<open>i\<close> the checks run in this order. A
  blank id gives the invalid-id error of index \<open>i\<close>. Otherwise an id shared in the batch
  gives the duplicate-id error that names \<open>i\<close> and the first other index that carries
  the id. Otherwise an id held by the table gives the error that the id already exists.
  Otherwise (the document is not in conflict, it only comes before the ones that are)
  the error is the one of the check of its content or embedding.
\<close>

theorem addDocuments_duplicate_ids_rejected:
  assumes "\<not> distinct (map docId docs) \<or> (\<exists>d\<in>set docs. hasDocument db (docId d))"
  shows "\<exists>e i. i < length docs \<and>
           addDocuments db evs now docs opts = Some (Inl e, db, evs) \<and>
           fails_check db docs (case opt_createEmbedding opts of None \<Rightarrow> False | Some b \<Rightarrow> b) i \<and>
           (\<forall>k<i. \<not> fails_check db docs (case opt_createEmbedding opts of None \<Rightarrow> False | Some b \<Rightarrow> b) k) \<and>
           (\<forall>c<length docs. conflicting db docs c \<longrightarrow> i \<le> c) \<and>
           (duplicate_kind e \<longleftrightarrow> \<not> blank_id (docs ! i) \<and> conflicting db docs i) \<and>
           (blank_id (docs ! i) \<longrightarrow> e = InvalidIDAtIndex i) \<and>
           (\<not> blank_id (docs ! i) \<longrightarrow>
              (\<forall>j. first_sharing docs i j \<longrightarrow> e = DuplicateID (docId (docs ! i)) i j)) \<and>
           (\<not> blank_id (docs ! i) \<and> \<not> (\<exists>j\<in>{0..<length docs}. shares_id docs i j) \<and>
              hasDocument db (docId (docs ! i)) \<longrightarrow> e = AlreadyExists (docId (docs ! i))) \<and>
           (\<not> blank_id (docs ! i) \<and> \<not> conflicting db docs i \<longrightarrow>
              embeddingCheck db (case opt_createEmbedding opts of None \<Rightarrow> False | Some b \<Rightarrow> b)
                i (docs ! i) = Some e)"
proof -
  let ?ce = "case opt_createEmbedding opts of None \<Rightarrow> False | Some b \<Rightarrow> b"
  from prevalidation_fails [OF assms, of ?ce]
  obtain e where e: "forEach_from (preValidate db docs ?ce) 0 docs = Some e" by blast
  have res: "addDocuments db evs now docs opts = Some (Inl e, db, evs)"
    by (rule addDocuments_prevalidation_error [OF e])
  from forEach_from_Some [OF e] obtain i where i: "i < length docs"
    "preValidate db docs ?ce i (docs ! i) = Some e"
    "\<forall>k<i. preValidate db docs ?ce k (docs ! k) = None" by auto
  from i(2) have f: "fails_check db docs ?ce i"
    using preValidate_None_iff [of db docs ?ce i] by simp
  from i(3) have nf: "\<forall>k<i. \<not> fails_check db docs ?ce k"
    using preValidate_None_iff [of db docs ?ce] by simp
  have le: "\<forall>c<length docs. conflicting db docs c \<longrightarrow> i \<le> c"
  proof (intro allI impI)
    fix c assume "c < length docs" "conflicting db docs c"
    then have "fails_check db docs ?ce c" by (simp add: fails_check_def)
    with nf show "i \<le> c" by (meson not_le)
  qed
  from preValidate_error [OF i(2)] preValidate_kind [OF i(2)] i(1) res f nf le
  show ?thesis by blast
qed

text \<open>
  The theorem at a batch whose first two documents share the id \<open>doc1\<close> and whose third
  document is invalid (it has no embedding): the first index in conflict is 0, so the
  error is the duplicate-id error for the indices 0 and 1.
\<close>

theorem addDocuments_duplicate_ids_rejected_witness:
  "\<not> distinct (map docId [doc_of ''doc1'' [Num 1], doc_of ''doc1'' [Num 2], text_doc ''a'' ''x'']) \<and>
   addDocuments empty_db [] 0
     [doc_of ''doc1'' [Num 1], doc_of ''doc1'' [Num 2], text_doc ''a'' ''x'']
     (add_options False None None False)
     = Some (Inl (DuplicateID ''doc1'' 0 1), empty_db, [])"
proof -
  let ?docs = "[doc_of ''doc1'' [Num 1], doc_of ''doc1'' [Num 2], text_doc ''a'' ''x'']"
  let ?opts = "add_options False None None False"
  have dup: "\<not> distinct (map docId ?docs)" by (simp add: doc_of_def)
  then have "\<not> distinct (map docId ?docs) \<or> (\<exists>d\<in>set ?docs. hasDocument empty_db (docId d))" ..
  from addDocuments_duplicate_ids_rejected [OF this, of "[]" 0 ?opts]
  obtain e i where res: "addDocuments empty_db [] 0 ?docs ?opts = Some (Inl e, empty_db, [])"
    and le: "\<forall>c<length ?docs. conflicting empty_db ?docs c \<longrightarrow> i \<le> c"
    and err: "\<not> blank_id (?docs ! i) \<longrightarrow>
                (\<forall>j. first_sharing ?docs i j \<longrightarrow> e = DuplicateID (docId (?docs ! i)) i j)"
    by blast
  have sh: "shares_id ?docs 0 1" by (simp add: shares_id_def doc_of_def)
  then have "conflicting empty_db ?docs 0"
    unfolding conflicting_def by (intro disjI1 bexI [of _ 1]) simp_all
  with le have "i \<le> 0" by (auto dest: spec [of _ 0])
  then have i: "i = 0" by simp
  have "\<not> blank_id (?docs ! 0)"
    by (simp add: blank_id_def doc_of_def is_ws_def is_ws2_def is_ws3_def)
  moreover have "first_sharing ?docs 0 1"
    using sh by (simp add: first_sharing_def shares_id_def)
  ultimately have "e = DuplicateID ''doc1'' 0 1"
    using err i by (simp add: doc_of_def)
  with res dup show ?thesis by simp
qed

section \<open>Timestamps\<close>

lemma updateDocument_stamps:
  assumes "updateDocument db evs now doc ce = (Inr True, db', evs')"
  shows "\<exists>old new. getDocument db (docId doc) = Some old \<and>
           getDocument db' (docId doc) = Some new \<and>
           createdAt new = createdAt old \<and> updatedAt new = Some now \<and>
           (\<forall>k. k \<noteq> docId doc \<longrightarrow> getDocument db' k = getDocument db k)"
  using assms
  by (auto simp: updateDocument_def getDocument_def
      split: if_splits prod.splits sum.splits option.splits dest!: resolveEmbedding_keeps)

lemma addDocument_stamps:
  assumes "addDocument db evs now doc ce = (Inr (), db', evs')"
  shows "\<exists>new. getDocument db' (docId doc) = Some new \<and>
           createdAt new = Some (case createdAt doc of Some c \<Rightarrow> c | None \<Rightarrow> now) \<and>
           updatedAt new = Some now \<and>
           (\<forall>k. k \<noteq> docId doc \<longrightarrow> getDocument db' k = getDocument db k)"
  using assms
  by (auto simp: addDocument_def getDocument_def
      split: if_splits prod.splits sum.splits option.splits dest!: resolveEmbedding_keeps)

lemma writeDocuments_other:
  "k \<notin> docId ` set ds \<Longrightarrow> map_get k (writeDocuments now ds m) = map_get k m"
  by (induction ds arbitrary: m) auto

lemma writeDocuments_get:
  "distinct (map docId ds) \<Longrightarrow> d \<in> set ds \<Longrightarrow>
     map_get (docId d) (writeDocuments now ds m) = Some (stamp now d)"
proof (induction ds arbitrary: m)
  case Nil
  then show ?case by simp
next
  case (Cons x ds)
  show ?case
  proof (cases "d = x")
    case True
    with Cons.prems(1) have "docId d \<notin> docId ` set ds" by auto
    with True show ?thesis by (simp add: writeDocuments_other stamp_def)
  next
    case False
    with Cons show ?thesis by simp
  qed
qed

lemma prevalidated_distinct:
  assumes "forEach_from (preValidate db docs ce) 0 docs = None"
  shows "distinct (map docId docs)"
proof -
  have "docId (docs ! i) \<noteq> docId (docs ! j)" if "i < length docs" "j < length docs" "i \<noteq> j" for i j
  proof
    assume "docId (docs ! i) = docId (docs ! j)"
    from preValidate_conflict [OF that this, of db ce]
    have "preValidate db docs ce i (docs ! i) \<noteq> None" .
    moreover from assms that(1) have "preValidate db docs ce i (docs ! i) = None"
      by (simp add: forEach_from_None_iff)
    ultimately show False by simp
  qed
  then show ?thesis by (auto simp: distinct_conv_nth)
qed

lemma partitionDocuments_mset:
  "partitionDocuments db needing having ds = Inr (needing', having') \<Longrightarrow>
     mset needing' + mset having' = mset needing + mset having + mset ds"
  by (induction ds arbitrary: needing having)
     (auto split: option.splits if_splits sum.splits)

lemma attach_keys:
  "map (\<lambda>d. (docId d, createdAt d)) (attachEmbeddings_from generated i ds)
     = map (\<lambda>d. (docId d, createdAt d)) ds"
  by (induction ds arbitrary: i) auto

lemma finishAdd_stamps:
  assumes r: "finishAdd db evs now finals = (Inr (), db', evs')"
    and dist: "distinct (map docId finals)" and f: "f \<in> set finals"
  shows "getDocument db' (docId f) = Some (stamp now f)"
proof -
  from r have "documents db' = writeDocuments now finals (documents db)"
    by (auto simp: finishAdd_def split: option.splits)
  with writeDocuments_get [OF dist f] show ?thesis by (simp add: getDocument_def)
qed

lemma addDocuments_finals:
  assumes r: "addDocuments db evs now docs opts = Some (Inr (), db', evs')" and ne: "docs \<noteq> []"
  shows "\<exists>evs0 finals. finishAdd db evs0 now finals = (Inr (), db', evs') \<and>
           mset (map (\<lambda>d. (docId d, createdAt d)) finals)
             = mset (map (\<lambda>d. (docId d, createdAt d)) docs) \<and>
           distinct (map docId docs)"
proof -
  let ?ce = "case opt_createEmbedding opts of None \<Rightarrow> False | Some b \<Rightarrow> b"
  from r ne have pv: "forEach_from (preValidate db docs ?ce) 0 docs = None"
    by (auto simp: addDocuments_def Let_def split: option.splits)
  have dist: "distinct (map docId docs)" by (rule prevalidated_distinct [OF pv])
  show ?thesis
  proof (cases ?ce)
    case False
    with r ne pv have "finishAdd db evs now docs = (Inr (), db', evs')"
      by (simp add: addDocuments_def Let_def)
    with dist show ?thesis by blast
  next
    case True
    with r ne pv obtain needing having generated evs0 where
      p: "partitionDocuments db [] [] docs = Inr (needing, having)"
      and fa: "finishAdd db evs0 now (having @ attachEmbeddings_from generated 0 needing)
                 = (Inr (), db', evs')"
      by (auto simp: addDocuments_def Let_def split: option.splits sum.splits prod.splits)
    from partitionDocuments_mset [OF p] have m: "mset needing + mset having = mset docs" by simp
    have "mset (map (\<lambda>d. (docId d, createdAt d)) (having @ attachEmbeddings_from generated 0 needing))
            = mset (map (\<lambda>d. (docId d, createdAt d)) having)
              + mset (map (\<lambda>d. (docId d, createdAt d)) needing)"
      by (simp add: attach_keys)
    also have "\<dots> = image_mset (\<lambda>d. (docId d, createdAt d)) (mset needing + mset having)"
      by simp
    also have "\<dots> = mset (map (\<lambda>d. (docId d, createdAt d)) docs)"
      by (simp only: m mset_map)
    finally show ?thesis using fa dist by blast
  qed
qed

lemma addDocuments_stamps:
  assumes r: "addDocuments db evs now docs opts = Some (Inr (), db', evs')" and d: "d \<in> set docs"
  shows "\<exists>new. getDocument db' (docId d) = Some new \<and>
           createdAt new = Some (case createdAt d of Some c \<Rightarrow> c | None \<Rightarrow> now) \<and>
           updatedAt new = Some now"
proof -
  from d have ne: "docs \<noteq> []" by auto
  from addDocuments_finals [OF r ne] obtain evs0 finals where
    fa: "finishAdd db evs0 now finals = (Inr (), db', evs')"
    and m: "mset (map (\<lambda>d. (docId d, createdAt d)) finals)
             = mset (map (\<lambda>d. (docId d, createdAt d)) docs)"
    and dist: "distinct (map docId docs)" by blast
  from m have "mset (map docId finals) = mset (map docId docs)"
    by (metis (no_types, lifting) image_mset.compositionality mset_map comp_def fst_conv
        multiset.map_cong0)
  with dist have distf: "distinct (map docId finals)"
    by (metis mset_eq_imp_distinct_iff)
  from d have "(docId d, createdAt d) \<in> set (map (\<lambda>d. (docId d, createdAt d)) docs)" by auto
  with m have "(docId d, createdAt d) \<in> set (map (\<lambda>d. (docId d, createdAt d)) finals)"
    by (metis mset_eq_setD)
  then obtain f where f: "f \<in> set finals" "docId f = docId d" "createdAt f = createdAt d"
    by auto
  from finishAdd_stamps [OF fa distf f(1)] f(2,3) show ?thesis
    by (auto simp: stamp_def)
qed

text \<open>
  \<open>addDocument\<close> takes \<open>createdAt\<close> from the document it is given, or from the clock; it
  never reads the stored document. A document inserted at time 1 and inserted again
  under the same id at time 7 ends with \<open>createdAt = 7\<close>.
\<close>

theorem addDocument_reinsert_resets_createdAt:
  "addDocument empty_db [] 1 (doc_of ''doc1'' [Num 1]) False
     = (Inr (), db_of [stored (doc_of ''doc1'' [Num 1]) 1 1], []) \<and>
   addDocument (db_of [stored (doc_of ''doc1'' [Num 1]) 1 1]) [] 7 (doc_of ''doc1'' [Num 1]) False
     = (Inr (), db_of [stored (doc_of ''doc1'' [Num 1]) 7 7], [])"
  by (simp add: run_defs)

text \<open>
  Claim C9, amended: a successful \<open>updateDocument\<close> keeps the \<open>createdAt\<close> of the stored
  document and sets \<open>updatedAt\<close> to the current time; a successful \<open>addDocument\<close> stores
  the \<open>createdAt\<close> of its input when it has one and the current time otherwise, also when
  the id was already present, and sets \<open>updatedAt\<close> to the current time. Neither changes
  any other document. A successful \<open>addDocuments\<close> stamps every document of the batch as
  \<open>addDocument\<close> does.
\<close>

theorem createdAt_updatedAt_stamping:
  "(updateDocument db evs now doc ce = (Inr True, db', evs') \<longrightarrow>
      (\<exists>old new. getDocument db (docId doc) = Some old \<and>
         getDocument db' (docId doc) = Some new \<and>
         createdAt new = createdAt old \<and> updatedAt new = Some now \<and>
         (\<forall>k. k \<noteq> docId doc \<longrightarrow> getDocument db' k = getDocument db k))) \<and>
   (addDocument db evs now doc ce = (Inr (), db'', evs'') \<longrightarrow>
      (\<exists>new. getDocument db'' (docId doc) = Some new \<and>
         createdAt new = Some (case createdAt doc of Some c \<Rightarrow> c | None \<Rightarrow> now) \<and>
         updatedAt new = Some now \<and>
         (\<forall>k. k \<noteq> docId doc \<longrightarrow> getDocument db'' k = getDocument db k))) \<and>
   (addDocuments db evs now docs opts = Some (Inr (), db3, evs3) \<longrightarrow>
      (\<forall>d\<in>set docs. \<exists>new. getDocument db3 (docId d) = Some new \<and>
         createdAt new = Some (case createdAt d of Some c \<Rightarrow> c | None \<Rightarrow> now) \<and>
         updatedAt new = Some now))"
  using updateDocument_stamps [of db evs now doc ce db' evs']
    addDocument_stamps [of db evs now doc ce db'' evs'']
    addDocuments_stamps [of db evs now docs opts db3 evs3]
  by blast

theorem createdAt_updatedAt_stamping_witness:
  "updateDocument (db_of [stored (doc_of ''doc1'' [Num 1]) 1 1]) [] 9 (doc_of ''doc1'' [Num 2]) False
     = (Inr True, db_of [stored (doc_of ''doc1'' [Num 2]) 1 9], []) \<and>
   addDocument (db_of [stored (doc_of ''doc1'' [Num 1]) 1 1]) [] 9 (doc_of ''doc2'' [Num 2]) False
     = (Inr (), db_of [stored (doc_of ''doc1'' [Num 1]) 1 1, stored (doc_of ''doc2'' [Num 2]) 9 9], []) \<and>
   (\<exists>old new.
      getDocument (db_of [stored (doc_of ''doc1'' [Num 1]) 1 1]) ''doc1'' = Some old \<and>
      getDocument (db_of [stored (doc_of ''doc1'' [Num 2]) 1 9]) ''doc1'' = Some new \<and>
      createdAt new = createdAt old \<and> updatedAt new = Some 9) \<and>
   (\<exists>new.
      getDocument (db_of [stored (doc_of ''doc1'' [Num 1]) 1 1, stored (doc_of ''doc2'' [Num 2]) 9 9])
        ''doc2'' = Some new \<and>
      createdAt new = Some 9 \<and> updatedAt new = Some 9) \<and>
   addDocuments (db_of [stored (doc_of ''doc1'' [Num 1]) 1 1]) [] 9 [doc_of ''doc2'' [Num 2]]
       (add_options False None None False)
     = Some (Inr (),
             db_of [stored (doc_of ''doc1'' [Num 1]) 1 1, stored (doc_of ''doc2'' [Num 2]) 9 9], [])"
proof -
  have b: "addDocuments (db_of [stored (doc_of ''doc1'' [Num 1]) 1 1]) [] 9 [doc_of ''doc2'' [Num 2]]
       (add_options False None None False)
     = Some (Inr (),
             db_of [stored (doc_of ''doc1'' [Num 1]) 1 1, stored (doc_of ''doc2'' [Num 2]) 9 9], [])"
    by (simp add: batch_defs finishAdd_def finalCheck_def run_defs)
  let ?db = "db_of [stored (doc_of ''doc1'' [Num 1]) 1 1]"
  let ?dbU = "db_of [stored (doc_of ''doc1'' [Num 2]) 1 9]"
  let ?dbA = "db_of [stored (doc_of ''doc1'' [Num 1]) 1 1, stored (doc_of ''doc2'' [Num 2]) 9 9]"
  have u: "updateDocument ?db [] 9 (doc_of ''doc1'' [Num 2]) False = (Inr True, ?dbU, [])"
    by (simp add: run_defs)
  have a: "addDocument ?db [] 9 (doc_of ''doc2'' [Num 2]) False = (Inr (), ?dbA, [])"
    by (simp add: run_defs)
  have idu: "docId (doc_of ''doc1'' [Num 2]) = ''doc1''"
    and ida: "docId (doc_of ''doc2'' [Num 2]) = ''doc2''"
    and ca: "createdAt (doc_of ''doc2'' [Num 2]) = None"
    by (simp_all add: doc_of_def)
  from createdAt_updatedAt_stamping
    [of ?db "[]" 9 "doc_of ''doc1'' [Num 2]" False ?dbU "[]" ?dbA "[]"
        "[doc_of ''doc2'' [Num 2]]" "add_options False None None False" ?dbA "[]"] u
  have 1: "\<exists>old new.
      getDocument ?db ''doc1'' = Some old \<and> getDocument ?dbU ''doc1'' = Some new \<and>
      createdAt new = createdAt old \<and> updatedAt new = Some 9"
    unfolding idu by blast
  from createdAt_updatedAt_stamping
    [of ?db "[]" 9 "doc_of ''doc2'' [Num 2]" False ?dbU "[]" ?dbA "[]"
        "[doc_of ''doc2'' [Num 2]]" "add_options False None None False" ?dbA "[]"] a
  have 2: "\<exists>new. getDocument ?dbA ''doc2'' = Some new \<and>
      createdAt new = Some 9 \<and> updatedAt new = Some 9"
    unfolding ida ca by auto
  from u a b 1 2 show ?thesis by blast
qed

section \<open>Sorting and slicing\<close>

lemma scoreDocuments_fst:
  "fst (scoreDocuments qe method thr acc evs docs) = acc @ surviving qe method thr docs"
  by (induction docs arbitrary: acc evs) (auto split: sum.splits)

lemma js_ge_not_NaN: "js_ge a b \<Longrightarrow> a \<noteq> NaN"
  by (auto simp: js_ge_def)

lemma surviving_not_NaN: "r \<in> set (surviving qe method thr docs) \<Longrightarrow> similarity r \<noteq> NaN"
  by (induction docs) (auto split: sum.splits if_splits dest: js_ge_not_NaN)

lemma js_gt_sub: "js_gt (js_sub b a) (Num 0) = js_gt b a"
  by (cases a; cases b) (auto simp: js_sub_def)

lemma js_gt_irrefl: "js_gt a b \<Longrightarrow> a \<noteq> b"
  by (cases a; cases b) auto

lemma js_ge_total: "a \<noteq> NaN \<Longrightarrow> b \<noteq> NaN \<Longrightarrow> \<not> js_gt b a \<Longrightarrow> js_ge a b"
  by (cases a; cases b) (auto simp: js_ge_def)

lemma js_ge_trans: "js_ge a b \<Longrightarrow> js_ge b c \<Longrightarrow> js_ge a c"
  by (cases a; cases b; cases c) (auto simp: js_ge_def)

lemma js_gt_ge: "js_gt a b \<Longrightarrow> js_ge a b"
  by (simp add: js_ge_def)

lemma set_js_insert: "set (js_insert cmp x ys) = insert x (set ys)"
  by (induction ys) auto

lemma mset_js_insert: "mset (js_insert cmp x ys) = add_mset x (mset ys)"
  by (induction ys) auto

lemma mset_js_sort: "mset (js_sort cmp xs) = mset xs"
  by (induction xs) (auto simp: mset_js_insert)

lemma set_js_sort: "set (js_sort cmp xs) = set xs"
  by (induction xs) (auto simp: set_js_insert)

lemma length_js_sort: "length (js_sort cmp xs) = length xs"
  using mset_js_sort [of cmp xs] by (metis size_mset)

lemma sorted_js_insert:
  assumes "similarity x \<noteq> NaN" "\<forall>y\<in>set ys. similarity y \<noteq> NaN"
    and "sorted_wrt (\<lambda>a b. js_ge (similarity a) (similarity b)) ys"
  shows "sorted_wrt (\<lambda>a b. js_ge (similarity a) (similarity b)) (js_insert by_similarity x ys)"
  using assms
proof (induction ys)
  case Nil
  then show ?case by simp
next
  case (Cons y ys)
  show ?case
  proof (cases "js_gt (similarity y) (similarity x)")
    case True
    with Cons show ?thesis
      by (auto simp: js_gt_sub set_js_insert js_gt_ge)
  next
    case False
    with Cons.prems have xy: "js_ge (similarity x) (similarity y)"
      by (auto intro: js_ge_total)
    with Cons.prems have "\<forall>z\<in>set ys. js_ge (similarity x) (similarity z)"
      by (auto intro: js_ge_trans)
    with False xy Cons.prems show ?thesis by (simp add: js_gt_sub)
  qed
qed

lemma sorted_sortResults:
  assumes "\<forall>y\<in>set rs. similarity y \<noteq> NaN"
  shows "sorted_wrt (\<lambda>a b. js_ge (similarity a) (similarity b)) (sortResults rs)"
  using assms unfolding sortResults_def
  by (induction rs) (auto intro!: sorted_js_insert simp: set_js_sort)

lemma filter_js_insert:
  "filter (\<lambda>r. similarity r = s) (js_insert by_similarity x ys)
     = filter (\<lambda>r. similarity r = s) (x # ys)"
  by (induction ys) (auto simp: js_gt_sub dest: js_gt_irrefl)

lemma stable_sortResults:
  "filter (\<lambda>r. similarity r = s) (sortResults rs) = filter (\<lambda>r. similarity r = s) rs"
  unfolding sortResults_def
  by (induction rs) (auto simp: filter_js_insert)

lemma mset_sortResults: "mset (sortResults rs) = mset rs"
  by (simp add: sortResults_def mset_js_sort)

lemma js_slice_nonneg:
  "0 \<le> a \<Longrightarrow> 0 \<le> n \<Longrightarrow> js_slice xs a (a + n) = take (nat n) (drop (nat a) xs)"
  by (auto simp: js_slice_def slice_index_def Let_def min_def nat_add_distrib)

lemma js_slice_0: "0 \<le> n \<Longrightarrow> js_slice xs 0 n = take (nat n) xs"
  using js_slice_nonneg [of 0 n xs] by simp

lemma concat_pages:
  "concat (map (\<lambda>p. take k (drop (p * k) xs)) [0..<n]) = take (n * k) xs"
proof (induction n)
  case 0
  then show ?case by simp
next
  case (Suc n)
  have "take (n * k + k) xs = take (n * k) xs @ take k (drop (n * k) xs)"
    by (rule take_add)
  moreover have "Suc n * k = n * k + k" by simp
  ultimately have "take (Suc n * k) xs = take (n * k) xs @ take k (drop (n * k) xs)"
    by (simp only:)
  with Suc show ?case by simp
qed

section \<open>Search results\<close>

lemma sortedResults_fst:
  "fst (sortedResults db evs qe opts) = sortResults (survivors db qe opts)"
  by (simp add: sortedResults_def survivors_def split: prod.splits)
     (metis scoreDocuments_fst append_Nil fst_conv)

lemma survivors_empty_store: "documents db = [] \<Longrightarrow> survivors db qe opts = []"
  by (simp add: survivors_def documentsToSearch_def map_values_def filterByMetadata_def
      split: option.splits)

lemma survivors_page_update [simp]:
  "survivors db qe (opts\<lparr>page := p, pageSize := ps\<rparr>) = survivors db qe opts"
  by (simp add: survivors_def)

lemma search_unpaged:
  assumes "resolveQuery db evs q = (Inr qe, evs1)" and "pageSize opts = None"
  shows "fst (search db evs q opts)
           = Inr (js_slice (sortResults (survivors db qe opts)) 0
                    (case limit opts of None \<Rightarrow> 10 | Some l \<Rightarrow> l))"
proof (cases "documents db = []")
  case True
  then show ?thesis
    by (simp add: search_def survivors_empty_store sortResults_def js_slice_def)
next
  case False
  with assms show ?thesis
    using sortedResults_fst [of db evs1 qe opts]
    by (auto simp: search_def split: prod.splits)
qed

lemma search_paged:
  assumes "resolveQuery db evs q = (Inr qe, evs1)" and "pageSize opts = Some ps"
  shows "fst (search db evs q opts)
           = Inr (js_slice (sortResults (survivors db qe opts))
                    (((case page opts of None \<Rightarrow> 1 | Some p \<Rightarrow> p) - 1) * ps)
                    (((case page opts of None \<Rightarrow> 1 | Some p \<Rightarrow> p) - 1) * ps + ps))"
proof (cases "documents db = []")
  case True
  then show ?thesis
    by (simp add: search_def survivors_empty_store sortResults_def js_slice_def)
next
  case False
  with assms show ?thesis
    using sortedResults_fst [of db evs1 qe opts]
    by (auto simp: search_def Let_def split: prod.splits)
qed

text \<open>
  Claim C4: for every search whose query resolves to a vector, the sorted list of the
  surviving results is in descending order of similarity, it is a permutation of the
  surviving results, and results of equal similarity stand in it in the order in which
  the scoring loop met them. When no \<open>pageSize\<close> is given, \<open>search\<close> returns the first
  \<open>limit\<close> results of that list (10 when \<open>limit\<close> is absent; \<open>limit\<close> is a count, not
  negative); with a \<open>pageSize\<close> it returns a slice of the same list.
\<close>

theorem search_sorted_stable_limited:
  assumes "resolveQuery db evs q = (Inr qe, evs1)"
  shows "sorted_wrt (\<lambda>a b. js_ge (similarity a) (similarity b))
           (sortResults (survivors db qe opts)) \<and>
         mset (sortResults (survivors db qe opts)) = mset (survivors db qe opts) \<and>
         (\<forall>s. filter (\<lambda>r. similarity r = s) (sortResults (survivors db qe opts))
                = filter (\<lambda>r. similarity r = s) (survivors db qe opts)) \<and>
         (pageSize opts = None \<and> 0 \<le> (case limit opts of None \<Rightarrow> 10 | Some l \<Rightarrow> l) \<longrightarrow>
            fst (search db evs q opts)
              = Inr (take (nat (case limit opts of None \<Rightarrow> 10 | Some l \<Rightarrow> l))
                       (sortResults (survivors db qe opts)))) \<and>
         (\<forall>ps. pageSize opts = Some ps \<longrightarrow>
            fst (search db evs q opts)
              = Inr (js_slice (sortResults (survivors db qe opts))
                       (((case page opts of None \<Rightarrow> 1 | Some p \<Rightarrow> p) - 1) * ps)
                       (((case page opts of None \<Rightarrow> 1 | Some p \<Rightarrow> p) - 1) * ps + ps)))"
proof -
  have "\<forall>y\<in>set (survivors db qe opts). similarity y \<noteq> NaN"
    by (auto simp: survivors_def dest: surviving_not_NaN)
  then have srt: "sorted_wrt (\<lambda>a b. js_ge (similarity a) (similarity b))
               (sortResults (survivors db qe opts))"
    by (rule sorted_sortResults)
  have unpaged: "fst (search db evs q opts)
           = Inr (take (nat (case limit opts of None \<Rightarrow> 10 | Some l \<Rightarrow> l))
                    (sortResults (survivors db qe opts)))"
    if "pageSize opts = None" "0 \<le> (case limit opts of None \<Rightarrow> 10 | Some l \<Rightarrow> l)"
    using search_unpaged [OF assms that(1)] that(2) by (simp add: js_slice_0)
  have paged: "fst (search db evs q opts)
              = Inr (js_slice (sortResults (survivors db qe opts))
                       (((case page opts of None \<Rightarrow> 1 | Some p \<Rightarrow> p) - 1) * ps)
                       (((case page opts of None \<Rightarrow> 1 | Some p \<Rightarrow> p) - 1) * ps + ps))"
    if "pageSize opts = Some ps" for ps
    by (rule search_paged [OF assms that])
  from srt unpaged paged show ?thesis
    by (simp add: mset_sortResults stable_sortResults)
qed

lemma searchWithPagination_paged:
  assumes "resolveQuery db evs q = (Inr qe, evs1)"
  shows "fst (searchWithPagination db evs q opts)
           = Inr \<lparr>res_data =
                   js_slice (sortResults (survivors db qe opts))
                    (((case page opts of None \<Rightarrow> 1 | Some p \<Rightarrow> p) - 1)
                       * (case pageSize opts of None \<Rightarrow> 10 | Some n \<Rightarrow> n))
                    (((case page opts of None \<Rightarrow> 1 | Some p \<Rightarrow> p) - 1)
                       * (case pageSize opts of None \<Rightarrow> 10 | Some n \<Rightarrow> n)
                     + (case pageSize opts of None \<Rightarrow> 10 | Some n \<Rightarrow> n)),
                 res_page = (case page opts of None \<Rightarrow> 1 | Some p \<Rightarrow> p),
                 res_pageSize = (case pageSize opts of None \<Rightarrow> 10 | Some n \<Rightarrow> n),
                 totalResults = length (sortResults (survivors db qe opts)),
                 totalPages =
                   (if documents db = [] then Num 0
                    else js_ceil (js_div (Num (of_nat (length (sortResults (survivors db qe opts)))))
                           (Num (of_int (case pageSize opts of None \<Rightarrow> 10 | Some n \<Rightarrow> n)))))\<rparr>"
proof (cases "documents db = []")
  case True
  then show ?thesis
    by (simp add: searchWithPagination_def survivors_empty_store sortResults_def js_slice_def)
next
  case False
  with assms show ?thesis
    using sortedResults_fst [of db evs1 qe opts]
    by (auto simp: searchWithPagination_def Let_def split: prod.splits)
qed

section \<open>Pagination\<close>

lemma page_slice:
  assumes "1 \<le> p" "1 \<le> k"
  shows "js_slice xs ((p - 1) * k) ((p - 1) * k + k) = take (nat k) (drop (nat (p - 1) * nat k) xs)"
proof -
  have "0 \<le> (p - 1) * k" using assms by simp
  moreover have "nat ((p - 1) * k) = nat (p - 1) * nat k"
    using assms by (simp add: nat_mult_distrib)
  ultimately show ?thesis using assms js_slice_nonneg [of "(p - 1) * k" k xs] by simp
qed

text \<open>
  Claim C5: for a query that resolves to a vector, a store and options that stay the
  same, and a page size \<open>k\<close> of at least 1: page \<open>p\<close> (counted from 1) of \<open>search\<close> and of
  \<open>searchWithPagination\<close> is the slice of \<open>k\<close> results of the sorted, thresholded result
  list that starts at \<open>(p - 1) * k\<close> (so the last non-empty page may be shorter); the
  pages \<open>1, ..., n\<close> concatenated give the whole list as soon as \<open>n * k\<close> reaches its
  length; a page past the end is empty and no error; \<open>searchWithPagination\<close> reports the
  number of results and \<open>totalPages = ceil(totalResults / k)\<close>, which is 0 on an empty
  table.
\<close>

theorem pagination_law:
  assumes rq: "resolveQuery db evs q = (Inr qe, evs1)" and k: "1 \<le> k"
  shows "(\<forall>p\<ge>1. fst (search db evs q (opts\<lparr>page := Some p, pageSize := Some k\<rparr>))
                 = Inr (take (nat k) (drop (nat (p - 1) * nat k) (sortResults (survivors db qe opts)))) \<and>
               fst (searchWithPagination db evs q (opts\<lparr>page := Some p, pageSize := Some k\<rparr>))
                 = Inr \<lparr>res_data = take (nat k) (drop (nat (p - 1) * nat k)
                                      (sortResults (survivors db qe opts))),
                        res_page = p, res_pageSize = k,
                        totalResults = length (survivors db qe opts),
                        totalPages = Num (of_int \<lceil>real (length (survivors db qe opts)) / real_of_int k\<rceil>)\<rparr>) \<and>
         (\<forall>n. length (survivors db qe opts) \<le> n * nat k \<longrightarrow>
            concat (map (\<lambda>i. projr (fst (search db evs q
                                 (opts\<lparr>page := Some (int i + 1), pageSize := Some k\<rparr>)))) [0..<n])
              = sortResults (survivors db qe opts)) \<and>
         (\<forall>p\<ge>1. int (length (survivors db qe opts)) \<le> (p - 1) * k \<longrightarrow>
            fst (search db evs q (opts\<lparr>page := Some p, pageSize := Some k\<rparr>)) = Inr []) \<and>
         (documents db = [] \<longrightarrow> survivors db qe opts = [])"
proof -
  let ?S = "sortResults (survivors db qe opts)"
  have len: "length ?S = length (survivors db qe opts)"
    by (simp add: sortResults_def length_js_sort)
  have pg: "fst (search db evs q (opts\<lparr>page := Some p, pageSize := Some k\<rparr>))
              = Inr (take (nat k) (drop (nat (p - 1) * nat k) ?S))" if "1 \<le> p" for p
    using search_paged [OF rq, of "opts\<lparr>page := Some p, pageSize := Some k\<rparr>" k]
      page_slice [OF that k, of ?S] by simp
  have tp: "(if documents db = [] then Num 0
             else js_ceil (js_div (Num (of_nat (length (survivors db qe opts)))) (Num (of_int k))))
            = Num (of_int \<lceil>real (length (survivors db qe opts)) / real_of_int k\<rceil>)"
    using k by (simp add: survivors_empty_store)
  have pgw: "fst (searchWithPagination db evs q (opts\<lparr>page := Some p, pageSize := Some k\<rparr>))
                 = Inr \<lparr>res_data = take (nat k) (drop (nat (p - 1) * nat k) ?S),
                        res_page = p, res_pageSize = k,
                        totalResults = length (survivors db qe opts),
                        totalPages = Num (of_int \<lceil>real (length (survivors db qe opts)) / real_of_int k\<rceil>)\<rparr>"
    if "1 \<le> p" for p
  proof -
    have h: "fst (searchWithPagination db evs q (opts\<lparr>page := Some p, pageSize := Some k\<rparr>))
                 = Inr \<lparr>res_data = js_slice ?S ((p - 1) * k) ((p - 1) * k + k),
                        res_page = p, res_pageSize = k,
                        totalResults = length ?S,
                        totalPages =
                          (if documents db = [] then Num 0
                           else js_ceil (js_div (Num (of_nat (length ?S))) (Num (of_int k))))\<rparr>"
      using searchWithPagination_paged [OF rq, of "opts\<lparr>page := Some p, pageSize := Some k\<rparr>"]
      by simp
    show ?thesis
      unfolding h by (simp only: page_slice [OF that k] tp len)
  qed
  have cc: "concat (map (\<lambda>i. projr (fst (search db evs q
                                 (opts\<lparr>page := Some (int i + 1), pageSize := Some k\<rparr>)))) [0..<n])
              = ?S" if "length (survivors db qe opts) \<le> n * nat k" for n
  proof -
    have "projr (fst (search db evs q (opts\<lparr>page := Some (int i + 1), pageSize := Some k\<rparr>)))
            = take (nat k) (drop (i * nat k) ?S)" for i
      using pg [of "int i + 1"] by simp
    then have "concat (map (\<lambda>i. projr (fst (search db evs q
                                 (opts\<lparr>page := Some (int i + 1), pageSize := Some k\<rparr>)))) [0..<n])
              = take (n * nat k) ?S"
      by (simp add: concat_pages)
    with that len show ?thesis by simp
  qed
  have beyond: "fst (search db evs q (opts\<lparr>page := Some p, pageSize := Some k\<rparr>)) = Inr []"
    if "1 \<le> p" "int (length (survivors db qe opts)) \<le> (p - 1) * k" for p
  proof -
    have "nat ((p - 1) * k) = nat (p - 1) * nat k"
      using that(1) k by (simp add: nat_mult_distrib)
    with that(2) have "length ?S \<le> nat (p - 1) * nat k"
      by (simp add: len)
    with pg [OF that(1)] show ?thesis by simp
  qed
  from pg pgw cc beyond survivors_empty_store [of db qe opts] show ?thesis by blast
qed

lemmas search_defs =
  survivors_def calculateSimilarity_def dotProductSimilarity_def reduce_def
  num_at_def js_ge_def documentsToSearch_def map_values_def db_of_def stored_def doc_of_def
  empty_db_def new_NeuraDB_def sortResults_def js_sub_def no_options_def resolveQuery_def

lemma three_docs_survivors:
  "survivors three_docs [Num 1] dot_options = [result_of ''a'' 1, result_of ''b'' 3, result_of ''c'' 1]"
  by (simp add: search_defs three_docs_def dot_options_def result_of_def)

lemma three_docs_sorted:
  "sortResults [result_of ''a'' 1, result_of ''b'' 3, result_of ''c'' 1]
     = [result_of ''b'' 3, result_of ''a'' 1, result_of ''c'' 1]"
  by (simp add: sortResults_def js_sub_def result_of_def)

lemma three_docs_query:
  "resolveQuery three_docs [] (QVector [Num 1]) = (Inr [Num 1], [])"
  by (simp add: resolveQuery_def)

theorem search_sorted_stable_limited_witness:
  "resolveQuery three_docs [] (QVector [Num 1]) = (Inr [Num 1], []) \<and>
   pageSize (dot_options\<lparr>limit := Some 2\<rparr>) = None \<and>
   (0::int) \<le> (case limit (dot_options\<lparr>limit := Some 2\<rparr>) of None \<Rightarrow> 10 | Some l \<Rightarrow> l) \<and>
   fst (search three_docs [] (QVector [Num 1]) (dot_options\<lparr>limit := Some 2\<rparr>))
     = Inr [result_of ''b'' 3, result_of ''a'' 1]"
proof -
  let ?opts = "dot_options\<lparr>limit := Some 2\<rparr>"
  have h2: "pageSize ?opts = None" by (simp add: dot_options_def no_options_def)
  have h3: "(0::int) \<le> (case limit ?opts of None \<Rightarrow> 10 | Some l \<Rightarrow> l)" by simp
  have s: "survivors three_docs [Num 1] ?opts = survivors three_docs [Num 1] dot_options"
    by (simp add: survivors_def)
  from search_sorted_stable_limited [OF three_docs_query, of ?opts] h2 h3
  have "fst (search three_docs [] (QVector [Num 1]) ?opts)
          = Inr (take 2 (sortResults (survivors three_docs [Num 1] ?opts)))"
    by simp
  then have "fst (search three_docs [] (QVector [Num 1]) ?opts)
          = Inr [result_of ''b'' 3, result_of ''a'' 1]"
    by (simp add: s three_docs_survivors three_docs_sorted)
  with three_docs_query h2 h3 show ?thesis by blast
qed

theorem pagination_law_witness:
  "resolveQuery three_docs [] (QVector [Num 1]) = (Inr [Num 1], []) \<and> (1::int) \<le> 2 \<and>
   fst (search three_docs [] (QVector [Num 1]) (dot_options\<lparr>page := Some 1, pageSize := Some 2\<rparr>))
     = Inr [result_of ''b'' 3, result_of ''a'' 1] \<and>
   fst (search three_docs [] (QVector [Num 1]) (dot_options\<lparr>page := Some 2, pageSize := Some 2\<rparr>))
     = Inr [result_of ''c'' 1] \<and>
   fst (search three_docs [] (QVector [Num 1]) (dot_options\<lparr>page := Some 3, pageSize := Some 2\<rparr>))
     = Inr [] \<and>
   fst (searchWithPagination three_docs [] (QVector [Num 1])
          (dot_options\<lparr>page := Some 2, pageSize := Some 2\<rparr>))
     = Inr \<lparr>res_data = [result_of ''c'' 1], res_page = 2, res_pageSize = 2,
            totalResults = 3, totalPages = Num 2\<rparr>"
proof -
  have k: "(1::int) \<le> 2" by simp
  note law = pagination_law [OF three_docs_query k, of dot_options]
  have S: "sortResults (survivors three_docs [Num 1] dot_options)
             = [result_of ''b'' 3, result_of ''a'' 1, result_of ''c'' 1]"
    by (simp add: three_docs_survivors three_docs_sorted)
  have L: "length (survivors three_docs [Num 1] dot_options) = 3"
    by (simp add: three_docs_survivors)
  have c: "\<lceil>(3::real) / 2\<rceil> = 2" by (simp add: ceiling_eq_iff)
  from law have p1: "fst (search three_docs [] (QVector [Num 1])
                       (dot_options\<lparr>page := Some 1, pageSize := Some 2\<rparr>))
                     = Inr [result_of ''b'' 3, result_of ''a'' 1]"
    by (simp add: S)
  from law have p2: "fst (search three_docs [] (QVector [Num 1])
                       (dot_options\<lparr>page := Some 2, pageSize := Some 2\<rparr>))
                     = Inr [result_of ''c'' 1]"
    by (simp add: S)
  from law have p3: "fst (search three_docs [] (QVector [Num 1])
                       (dot_options\<lparr>page := Some 3, pageSize := Some 2\<rparr>))
                     = Inr []"
    by (simp add: S)
  from law have w: "fst (searchWithPagination three_docs [] (QVector [Num 1])
          (dot_options\<lparr>page := Some 2, pageSize := Some 2\<rparr>))
     = Inr \<lparr>res_data = [result_of ''c'' 1], res_page = 2, res_pageSize = 2,
            totalResults = 3, totalPages = Num 2\<rparr>"
    by (simp add: S L c)
  from three_docs_query k p1 p2 p3 w show ?thesis by blast
qed

section \<open>Cosine similarity\<close>


















section \<open>Batch embedding generation\<close>

lemma ceil_div_less: "0 < k \<Longrightarrow> j < (n + k - 1) div k \<longleftrightarrow> j * k < (n::nat)"
proof -
  assume k: "0 < k"
  have "j < (n + k - 1) div k \<longleftrightarrow> Suc j \<le> (n + k - 1) div k" by auto
  also have "\<dots> \<longleftrightarrow> Suc j * k \<le> n + k - 1" using k by (simp add: less_eq_div_iff_mult_less_eq)
  also have "\<dots> \<longleftrightarrow> j * k < n" using k by auto
  finally show ?thesis .
qed

lemma chunkLoop_chunks:
  assumes k: "0 < k"
  shows "j \<le> (length xs + k - 1) div k \<Longrightarrow>
     chunkLoop xs (int k) (int (j * k)) acc
       = Some (acc @ map (\<lambda>i. take k (drop (i * k) xs)) [j..<(length xs + k - 1) div k])"
proof (induction "(length xs + k - 1) div k - j" arbitrary: j acc)
  case 0
  then have j: "j = (length xs + k - 1) div k" by simp
  then have "\<not> j * k < length xs" using ceil_div_less [OF k, of j "length xs"] by simp
  then have c: "\<not> int (j * k) < int (length xs)" by (simp only: of_nat_less_iff not_False_eq_True)
  have "chunkLoop xs (int k) (int (j * k)) acc
          = (if int (j * k) < int (length xs)
             then chunkLoop xs (int k) (int (j * k) + int k)
                    (acc @ [js_slice xs (int (j * k)) (int (j * k) + int k)])
             else Some acc)"
    by (rule chunkLoop.simps)
  with c have "chunkLoop xs (int k) (int (j * k)) acc = Some acc" by (simp only: if_False)
  then show ?case using j by simp
next
  case (Suc m)
  then have lt: "j < (length xs + k - 1) div k" by simp
  then have jk: "j * k < length xs" using ceil_div_less [OF k] by simp
  have sl: "js_slice xs (int (j * k)) (int (j * k) + int k) = take k (drop (j * k) xs)"
  proof -
    have "js_slice xs (int (j * k)) (int (j * k) + int k)
            = take (nat (int k)) (drop (nat (int (j * k))) xs)"
      by (rule js_slice_nonneg) (simp_all only: of_nat_0_le_iff)
    then show ?thesis by (simp only: nat_int)
  qed
  have nx: "int (j * k) + int k = int (Suc j * k)" by simp
  have sl': "js_slice xs (int (j * k)) (int (Suc j * k)) = take k (drop (j * k) xs)"
    using sl by (simp only: nx)
  from Suc.hyps(2) lt have m: "m = (length xs + k - 1) div k - Suc j" by simp
  from lt have le: "Suc j \<le> (length xs + k - 1) div k" by simp
  have step: "chunkLoop xs (int k) (int (j * k)) acc
          = (if int (j * k) < int (length xs)
             then chunkLoop xs (int k) (int (j * k) + int k)
                    (acc @ [js_slice xs (int (j * k)) (int (j * k) + int k)])
             else Some acc)"
    by (rule chunkLoop.simps)
  have c: "int (j * k) < int (length xs)" using jk by (simp only: of_nat_less_iff)
  have "chunkLoop xs (int k) (int (j * k)) acc
          = chunkLoop xs (int k) (int (Suc j * k)) (acc @ [take k (drop (j * k) xs)])"
    using step c by (simp only: if_True nx sl')
  also have "\<dots> = Some ((acc @ [take k (drop (j * k) xs)])
                       @ map (\<lambda>i. take k (drop (i * k) xs)) [Suc j..<(length xs + k - 1) div k])"
    by (rule Suc.hyps(1) [OF m le])
  also have "\<dots> = Some (acc @ map (\<lambda>i. take k (drop (i * k) xs)) [j..<(length xs + k - 1) div k])"
    using lt by (simp add: upt_conv_Cons)
  finally show ?case .
qed

lemma chunkArray_chunks: "0 < k \<Longrightarrow> chunkArray xs (int k) = Some (chunks_of k xs)"
  using chunkLoop_chunks [of k 0 xs "[]"] by (simp add: chunkArray_def chunks_of_def)

lemma concat_chunks_of: "0 < k \<Longrightarrow> concat (chunks_of k xs) = xs"
proof -
  assume k: "0 < k"
  have "\<not> ((length xs + k - 1) div k) * k < length xs"
    using ceil_div_less [OF k, of "(length xs + k - 1) div k" "length xs"] by simp
  then show ?thesis by (simp add: chunks_of_def concat_pages)
qed

lemma length_chunks_of: "length (chunks_of k xs) = (length xs + k - 1) div k"
  by (simp add: chunks_of_def)

lemma nth_chunks_of:
  "i < length (chunks_of k xs) \<Longrightarrow> chunks_of k xs ! i = take k (drop (i * k) xs)"
  by (simp add: chunks_of_def)

lemma chunk_lengths:
  assumes k: "0 < k" and i: "i < length (chunks_of k xs)"
  shows "length (chunks_of k xs ! i)
           = (if Suc i < length (chunks_of k xs) then k else length xs - i * k)"
    and "0 < length (chunks_of k xs ! i)" and "length (chunks_of k xs ! i) \<le> k"
proof -
  from i have ik: "i * k < length xs"
    using ceil_div_less [OF k] by (simp add: length_chunks_of)
  have full: "Suc i < length (chunks_of k xs) \<Longrightarrow> i * k + k \<le> length xs"
    using ceil_div_less [OF k, of "Suc i" "length xs"] by (simp add: length_chunks_of)
  have part: "\<not> Suc i < length (chunks_of k xs) \<Longrightarrow> length xs \<le> i * k + k"
    using ceil_div_less [OF k, of "Suc i" "length xs"] by (simp add: length_chunks_of)
  show "length (chunks_of k xs ! i)
           = (if Suc i < length (chunks_of k xs) then k else length xs - i * k)"
  proof (cases "Suc i < length (chunks_of k xs)")
    case True
    with full have "i * k + k \<le> length xs" by simp
    with True show ?thesis by (simp add: nth_chunks_of [OF i])
  next
    case False
    with part have "length xs \<le> i * k + k" by simp
    with False show ?thesis by (simp add: nth_chunks_of [OF i])
  qed
  show "0 < length (chunks_of k xs ! i)" using ik k by (simp add: nth_chunks_of [OF i])
  show "length (chunks_of k xs ! i) \<le> k" by (simp add: nth_chunks_of [OF i])
qed

lemma chunks_of_single: "0 < length xs \<Longrightarrow> length xs \<le> k \<Longrightarrow> chunks_of k xs = [xs]"
proof -
  assume a: "0 < length xs" "length xs \<le> k"
  then obtain n where n: "length xs = Suc n" by (cases xs) auto
  with a have "(length xs + k - 1) div k = 1"
    by (intro div_nat_eqI) simp_all
  with a show ?thesis by (simp add: chunks_of_def)
qed

lemma chunks_of_Nil: "chunks_of k [] = []"
  by (cases k) (simp_all add: chunks_of_def)

lemma ceil_div_real:
  assumes k: "0 < k"
  shows "int ((n + k - 1) div k) = \<lceil>real n / real k\<rceil>"
proof -
  let ?m = "(n + k - 1) div k"
  have up: "real n \<le> real ?m * real k"
  proof -
    have "\<not> ?m * k < n" using ceil_div_less [OF k, of ?m n] by simp
    then have "n \<le> ?m * k" by simp
    then have "real n \<le> real (?m * k)" by (simp only: of_nat_le_iff)
    then show ?thesis by simp
  qed
  have lo: "(real ?m - 1) * real k < real n"
  proof (cases ?m)
    case 0
    then have "\<not> 0 * k < n" using ceil_div_less [OF k, of 0 n] by simp
    with 0 k show ?thesis by simp
  next
    case (Suc j)
    then have "j < ?m" by simp
    then have "j * k < n" using ceil_div_less [OF k] by simp
    then have "real (j * k) < real n" by (simp only: of_nat_less_iff)
    with Suc show ?thesis by simp
  qed
  from k have kr: "0 < real k" by simp
  have "real n / real k \<le> real ?m" using up kr by (simp add: divide_le_eq)
  moreover have "real ?m - 1 < real n / real k" using lo kr by (simp add: less_divide_eq)
  ultimately have "\<lceil>real n / real k\<rceil> = int ?m"
    by (intro ceiling_unique) simp_all
  then show ?thesis by simp
qed

lemma batch_trace_Cons:
  "cs \<noteq> [] \<Longrightarrow> batch_trace model d (c # cs)
     = EmbedCall (Many c) model # delay_events d @ batch_trace model d cs"
  by (cases cs) simp_all

lemma embedBatches_success:
  assumes "n = i + length rest"
    and "list_all answered (batch_responses create model d evs rest)"
  shows "embedBatches create model d n i acc evs rest
           = (Inr (acc @ concat (map (\<lambda>r. sortedEmbeddings (projr r))
                                   (batch_responses create model d evs rest))),
              evs @ batch_trace model d rest)"
  using assms
proof (induction rest arbitrary: i acc evs)
  case Nil
  then show ?case by simp
next
  case (Cons c cs)
  from Cons.prems(2) obtain data where data: "create evs (Many c) model = Inr data"
    by (auto simp: answered_def split: sum.splits)
  let ?evs2 = "evs @ EmbedCall (Many c) model # delay_events d"
  from Cons.prems(2) have rest_ok: "list_all answered (batch_responses create model d ?evs2 cs)"
    by simp
  show ?case
  proof (cases cs)
    case Nil
    with Cons.prems(1) data show ?thesis by simp
  next
    case (Cons c' cs')
    then have bt: "batch_trace model d (c # cs)
                     = EmbedCall (Many c) model # delay_events d @ batch_trace model d cs"
      by simp
    from Cons Cons.prems(1) have n: "n = (i + 1) + length cs" "int i < int n - 1" by simp_all
    from n(2) have step: "embedBatches create model d n i acc evs (c # cs)
            = embedBatches create model d n (i + 1) (acc @ sortedEmbeddings data) ?evs2 cs"
      using data by (simp add: delay_events_def)
    also have "\<dots> = (Inr ((acc @ sortedEmbeddings data)
                            @ concat (map (\<lambda>r. sortedEmbeddings (projr r))
                                        (batch_responses create model d ?evs2 cs))),
                       ?evs2 @ batch_trace model d cs)"
      by (rule Cons.IH [OF n(1) rest_ok])
    finally show ?thesis using data by (simp add: bt)
  qed
qed

lemma generateEmbeddings_success:
  assumes oa: "openai db = Some create" and k: "0 < k"
    and ok: "list_all answered
               (batch_responses create (embeddingModel db) bDelay evs (chunks_of (nat k) texts))"
  shows "generateEmbeddings db evs texts k bDelay
           = Some (Inr (concat (map (\<lambda>r. sortedEmbeddings (projr r))
                          (batch_responses create (embeddingModel db) bDelay evs
                             (chunks_of (nat k) texts)))),
                   evs @ batch_trace (embeddingModel db) bDelay (chunks_of (nat k) texts))"
proof -
  from k have nk: "0 < nat k" "int (nat k) = k" by simp_all
  consider "texts = []" | "texts \<noteq> []" "int (length texts) \<le> k" | "\<not> int (length texts) \<le> k"
    by blast
  then show ?thesis
  proof cases
    case 1
    then show ?thesis using oa by (simp add: generateEmbeddings_def chunks_of_Nil)
  next
    case 2
    then have ch: "chunks_of (nat k) texts = [texts]"
      by (intro chunks_of_single) auto
    with ok obtain data where "create evs (Many texts) (embeddingModel db) = Inr data"
      by (auto simp: answered_def split: sum.splits)
    with 2 oa ch show ?thesis by (simp add: generateEmbeddings_def)
  next
    case 3
    then have ne: "texts \<noteq> []" using k by auto
    have ca: "chunkArray texts k = Some (chunks_of (nat k) texts)"
      using chunkArray_chunks [OF nk(1), of texts] by (simp only: nk(2))
    from 3 ne oa ca show ?thesis
      using embedBatches_success [of "length (chunks_of (nat k) texts)" 0 _ create _ bDelay evs "[]", OF _ ok]
      by (simp add: generateEmbeddings_def)
  qed
qed

lemma generateEmbeddings_returns:
  assumes "0 < k"
  shows "\<exists>r. generateEmbeddings db evs texts k bDelay = Some r"
proof -
  from assms have nk: "0 < nat k" "int (nat k) = k" by simp_all
  have ca: "chunkArray texts k = Some (chunks_of (nat k) texts)"
    using chunkArray_chunks [OF nk(1), of texts] by (simp only: nk(2))
  then show ?thesis by (simp add: generateEmbeddings_def split: option.splits)
qed

lemma calls_of_batch_trace:
  "filter is_call (batch_trace model d cs) = map (\<lambda>c. EmbedCall (Many c) model) cs"
  by (induction model d cs rule: batch_trace.induct) (simp_all add: is_call_def delay_events_def)

lemma delays_of_batch_trace:
  "filter is_delay (batch_trace model d cs)
     = (if 0 < d then replicate (length cs - 1) (Delay d) else [])"
  by (induction model d cs rule: batch_trace.induct) (simp_all add: is_delay_def delay_events_def)

lemma batch_trace_nonempty: "cs \<noteq> [] \<Longrightarrow> batch_trace model d cs \<noteq> []"
  by (induction model d cs rule: batch_trace.induct) simp_all

lemma last_batch_trace:
  "cs \<noteq> [] \<Longrightarrow> last (batch_trace model d cs) = EmbedCall (Many (last cs)) model"
  by (induction model d cs rule: batch_trace.induct)
     (simp_all add: delay_events_def batch_trace_nonempty)

text \<open>
  Claim C7: for a batch size \<open>k\<close> of at least 1, \<open>chunkArray\<close> splits \<open>n\<close> texts into
  \<open>ceil(n / k)\<close> chunks, chunk \<open>i\<close> being the slice of \<open>k\<close> texts from position \<open>i * k\<close>: the
  chunks concatenated are the texts, no chunk is empty, and every chunk has \<open>k\<close> texts
  except possibly the last. When the provider answers every call, \<open>generateEmbeddings\<close>
  returns the embeddings of the chunks (each answer sorted by index) appended in order,
  and what it does is: one provider call per chunk, in order, a delay of \<open>batchDelay\<close>
  between consecutive chunks (when \<open>batchDelay\<close> is positive) and none after the last;
  15 texts with batch size 5 make exactly 3 provider calls.
\<close>

theorem batch_embedding_generation:
  assumes oa: "openai db = Some create" and k: "0 < k"
    and ok: "list_all answered
               (batch_responses create (embeddingModel db) bDelay evs (chunks_of (nat k) texts))"
  shows "chunkArray texts k = Some (chunks_of (nat k) texts) \<and>
         concat (chunks_of (nat k) texts) = texts \<and>
         int (length (chunks_of (nat k) texts)) = \<lceil>real (length texts) / real_of_int k\<rceil> \<and>
         (\<forall>i<length (chunks_of (nat k) texts).
            chunks_of (nat k) texts ! i = take (nat k) (drop (i * nat k) texts) \<and>
            0 < length (chunks_of (nat k) texts ! i) \<and>
            length (chunks_of (nat k) texts ! i)
              = (if Suc i < length (chunks_of (nat k) texts) then nat k
                 else length texts - i * nat k)) \<and>
         generateEmbeddings db evs texts k bDelay
           = Some (Inr (concat (map (\<lambda>r. sortedEmbeddings (projr r))
                          (batch_responses create (embeddingModel db) bDelay evs
                             (chunks_of (nat k) texts)))),
                   evs @ batch_trace (embeddingModel db) bDelay (chunks_of (nat k) texts)) \<and>
         filter is_call (batch_trace (embeddingModel db) bDelay (chunks_of (nat k) texts))
           = map (\<lambda>c. EmbedCall (Many c) (embeddingModel db)) (chunks_of (nat k) texts) \<and>
         filter is_delay (batch_trace (embeddingModel db) bDelay (chunks_of (nat k) texts))
           = (if 0 < bDelay then replicate (length (chunks_of (nat k) texts) - 1) (Delay bDelay)
              else []) \<and>
         (texts \<noteq> [] \<longrightarrow>
            last (batch_trace (embeddingModel db) bDelay (chunks_of (nat k) texts))
              = EmbedCall (Many (last (chunks_of (nat k) texts))) (embeddingModel db)) \<and>
         (length texts = 15 \<and> k = 5 \<longrightarrow>
            length (filter is_call
                      (batch_trace (embeddingModel db) bDelay (chunks_of (nat k) texts))) = 3)"
proof -
  let ?cs = "chunks_of (nat k) texts"
  from k have nk: "0 < nat k" "int (nat k) = k" by simp_all
  have 1: "chunkArray texts k = Some ?cs"
    using chunkArray_chunks [OF nk(1), of texts] by (simp only: nk(2))
  have 2: "concat ?cs = texts" by (rule concat_chunks_of [OF nk(1)])
  have 3: "int (length ?cs) = \<lceil>real (length texts) / real_of_int k\<rceil>"
    using ceil_div_real [OF nk(1), of "length texts"] k by (simp add: length_chunks_of)
  have 4: "\<forall>i<length ?cs. ?cs ! i = take (nat k) (drop (i * nat k) texts) \<and>
            0 < length (?cs ! i) \<and>
            length (?cs ! i) = (if Suc i < length ?cs then nat k else length texts - i * nat k)"
    using chunk_lengths(1,2) [OF nk(1)] nth_chunks_of by blast
  have 5: "generateEmbeddings db evs texts k bDelay
           = Some (Inr (concat (map (\<lambda>r. sortedEmbeddings (projr r))
                          (batch_responses create (embeddingModel db) bDelay evs ?cs))),
                   evs @ batch_trace (embeddingModel db) bDelay ?cs)"
    by (rule generateEmbeddings_success [OF oa k ok])
  have ne: "texts \<noteq> [] \<Longrightarrow> ?cs \<noteq> []"
    using 2 by auto
  have 8: "texts \<noteq> [] \<longrightarrow>
            last (batch_trace (embeddingModel db) bDelay ?cs)
              = EmbedCall (Many (last ?cs)) (embeddingModel db)"
    using ne last_batch_trace by blast
  have 9: "length texts = 15 \<and> k = 5 \<longrightarrow>
            length (filter is_call (batch_trace (embeddingModel db) bDelay ?cs)) = 3"
    by (auto simp: calls_of_batch_trace length_chunks_of)
  from 1 2 3 4 5 8 9 show ?thesis
    by (simp only: calls_of_batch_trace delays_of_batch_trace simp_thms)
qed

lemma texts15_chunks:
  "chunks_of 5 texts15
     = [[''a'', ''b'', ''c'', ''d'', ''e''], [''f'', ''g'', ''h'', ''i'', ''j''],
        [''k'', ''l'', ''m'', ''n'', ''o'']]"
  by (simp add: chunks_of_def texts15_def upt_rec)

lemma mock_model: "embeddingModel mock_db = ''text-embedding-3-small''"
  by (simp add: mock_db_def new_NeuraDB_def)

lemma mock_responses:
  "batch_responses mock_openai m d evs [c1, c2, c3]
     = [mock_openai [] (Many c1) m, mock_openai [] (Many c2) m, mock_openai [] (Many c3) m]"
  by (simp add: mock_openai_def)

lemma mock_embeddings:
  "length c = 5 \<Longrightarrow> sortedEmbeddings (projr (mock_openai [] (Many c) m))
     = [[Num 0], [Num 1], [Num 2], [Num 3], [Num 4]]"
  by (simp add: mock_openai_def sortedEmbeddings_def upt_rec)

theorem batch_embedding_generation_witness:
  "openai mock_db = Some mock_openai \<and> (0::int) < 5 \<and>
   list_all answered
     (batch_responses mock_openai (embeddingModel mock_db) 100 [] (chunks_of (nat 5) texts15)) \<and>
   generateEmbeddings mock_db [] texts15 5 100
     = Some (Inr [[Num 0], [Num 1], [Num 2], [Num 3], [Num 4],
                  [Num 0], [Num 1], [Num 2], [Num 3], [Num 4],
                  [Num 0], [Num 1], [Num 2], [Num 3], [Num 4]],
             [EmbedCall (Many [''a'', ''b'', ''c'', ''d'', ''e'']) ''text-embedding-3-small'',
              Delay 100,
              EmbedCall (Many [''f'', ''g'', ''h'', ''i'', ''j'']) ''text-embedding-3-small'',
              Delay 100,
              EmbedCall (Many [''k'', ''l'', ''m'', ''n'', ''o'']) ''text-embedding-3-small''])"
proof -
  have oa: "openai mock_db = Some mock_openai" by (simp add: mock_db_def new_NeuraDB_def)
  have k: "(0::int) < 5" by simp
  have n5: "nat 5 = 5" by simp
  have ok: "list_all answered
     (batch_responses mock_openai (embeddingModel mock_db) 100 [] (chunks_of (nat 5) texts15))"
    by (simp only: n5 texts15_chunks mock_responses) (simp add: answered_def mock_openai_def)
  from batch_embedding_generation [OF oa k ok]
  have "generateEmbeddings mock_db [] texts15 5 100
           = Some (Inr (concat (map (\<lambda>r. sortedEmbeddings (projr r))
                          (batch_responses mock_openai (embeddingModel mock_db) 100 []
                             (chunks_of (nat 5) texts15)))),
                   [] @ batch_trace (embeddingModel mock_db) 100 (chunks_of (nat 5) texts15))"
    by blast
  then have "generateEmbeddings mock_db [] texts15 5 100
     = Some (Inr [[Num 0], [Num 1], [Num 2], [Num 3], [Num 4],
                  [Num 0], [Num 1], [Num 2], [Num 3], [Num 4],
                  [Num 0], [Num 1], [Num 2], [Num 3], [Num 4]],
             [EmbedCall (Many [''a'', ''b'', ''c'', ''d'', ''e'']) ''text-embedding-3-small'',
              Delay 100,
              EmbedCall (Many [''f'', ''g'', ''h'', ''i'', ''j'']) ''text-embedding-3-small'',
              Delay 100,
              EmbedCall (Many [''k'', ''l'', ''m'', ''n'', ''o'']) ''text-embedding-3-small''])"
    by (simp only: n5 texts15_chunks mock_responses mock_model)
       (simp add: mock_embeddings delay_events_def)
  with oa k ok show ?thesis by blast
qed

section \<open>The dimension invariant\<close>

lemma has_dimension_unique: "has_dimension n d \<Longrightarrow> has_dimension n' d \<Longrightarrow> n = n'"
  by (auto simp: has_dimension_def split: option.splits)

lemma dim_invariant_iff:
  "dim_invariant db \<longleftrightarrow> (\<exists>n. \<forall>d\<in>set (getAllDocuments db). has_dimension n d)"
proof
  assume inv: "dim_invariant db"
  show "\<exists>n. \<forall>d\<in>set (getAllDocuments db). has_dimension n d"
  proof (cases "getAllDocuments db")
    case Nil
    then show ?thesis by simp
  next
    case (Cons d0 ds)
    with inv obtain n0 where n0: "has_dimension n0 d0"
      by (auto simp: dim_invariant_def)
    have "has_dimension n0 d" if "d \<in> set (getAllDocuments db)" for d
    proof -
      from inv that Cons obtain n where "has_dimension n d0" "has_dimension n d"
        unfolding dim_invariant_def by (metis list.set_intros(1))
      with n0 show ?thesis using has_dimension_unique by blast
    qed
    then show ?thesis by blast
  qed
next
  assume "\<exists>n. \<forall>d\<in>set (getAllDocuments db). has_dimension n d"
  then show "dim_invariant db" unfolding dim_invariant_def by blast
qed

lemma dims_of_uniform:
  assumes "\<forall>d\<in>set (getAllDocuments db). has_dimension n d" "documents db \<noteq> []"
  shows "getEmbeddingDimensions db = Inr (Some n)"
proof -
  from assms(2) obtain k d rest where m: "documents db = (k, d) # rest"
    by (cases "documents db") auto
  with assms(1) have "has_dimension n d" by (simp add: getAllDocuments_def map_values_def)
  with m show ?thesis
    by (auto simp: getEmbeddingDimensions_def map_values_def has_dimension_def split: option.splits)
qed

lemma dims_of_empty: "documents db = [] \<Longrightarrow> getEmbeddingDimensions db = Inr None"
  by (simp add: getEmbeddingDimensions_def map_values_def)

lemma values_map_set:
  "set (map_values (map_set k v m)) \<subseteq> insert v (set (map_values m))"
  by (induction m) (auto simp: map_values_def)

lemma map_set_nonempty [simp]: "map_set k v m \<noteq> []"
  by (cases m) auto

lemma values_map_delete: "set (map_values (map_delete k m)) \<subseteq> set (map_values m)"
  by (auto simp: map_values_def map_delete_def)

lemma checkDimensions_None:
  "checkDimensions db emb = None \<Longrightarrow>
     \<exists>e. emb = Some e \<and>
         (getEmbeddingDimensions db = Inr None \<or> getEmbeddingDimensions db = Inr (Some (length e)))"
  by (auto simp: checkDimensions_def validateEmbeddingDimensions_def
      split: option.splits sum.splits bool.splits if_splits)

lemma has_dimension_stamp [simp]:
  "has_dimension n (d\<lparr>createdAt := c, updatedAt := u\<rparr>) = has_dimension n d"
  by (simp add: has_dimension_def)

lemma write_checked:
  assumes u: "\<forall>d\<in>set (getAllDocuments db). has_dimension n d"
    and c: "checkDimensions db (embedding v) = None"
  shows "\<exists>n'. (\<forall>d\<in>set (map_values (map_set k (v\<lparr>createdAt := c', updatedAt := u'\<rparr>) (documents db))).
                  has_dimension n' d) \<and>
              (documents db \<noteq> [] \<longrightarrow> n' = n)"
proof -
  from checkDimensions_None [OF c] obtain e where e: "embedding v = Some e"
    "getEmbeddingDimensions db = Inr None \<or> getEmbeddingDimensions db = Inr (Some (length e))"
    by blast
  then have hv: "has_dimension (length e) v" by (simp add: has_dimension_def)
  show ?thesis
  proof (cases "documents db = []")
    case True
    then show ?thesis using hv by (auto simp: map_values_def intro!: exI [of _ "length e"])
  next
    case False
    with dims_of_uniform [OF u] e(2) have "length e = n" by simp
    with hv u values_map_set [of k "v\<lparr>createdAt := c', updatedAt := u'\<rparr>" "documents db"]
    show ?thesis by (auto simp: getAllDocuments_def intro!: exI [of _ n])
  qed
qed

lemma addDocument_uniform:
  assumes u: "\<forall>d\<in>set (getAllDocuments db). has_dimension n d"
    and r: "addDocument db evs now doc ce = (res, db', evs')"
  shows "\<exists>n'. (\<forall>d\<in>set (getAllDocuments db'). has_dimension n' d) \<and> (documents db \<noteq> [] \<longrightarrow> n' = n)"
proof (cases "db' = db")
  case True
  with u show ?thesis by blast
next
  case False
  with r obtain fd where "checkDimensions db (embedding fd) = None"
    "documents db' = map_set (docId fd)
        (fd\<lparr>createdAt := Some (case createdAt fd of Some c \<Rightarrow> c | None \<Rightarrow> now),
            updatedAt := Some now\<rparr>) (documents db)"
    by (auto simp: addDocument_def split: prod.splits sum.splits option.splits)
  with write_checked [OF u this(1)] show ?thesis by (simp add: getAllDocuments_def)
qed

lemma updateDocument_documents:
  assumes "updateDocument db evs now doc ce = (res, db', evs')"
  shows "db' = db \<or>
         (checkDimensions db (embedding (projr (fst (resolveEmbedding db evs doc ce)))) = None \<and>
          documents db'
            = map_set (docId (projr (fst (resolveEmbedding db evs doc ce))))
                ((projr (fst (resolveEmbedding db evs doc ce)))
                   \<lparr>createdAt :=
                      createdAt (the (map_get (docId (projr (fst (resolveEmbedding db evs doc ce))))
                                        (documents db))),
                    updatedAt := Some now\<rparr>)
                (documents db))"
  using assms
  by (auto simp: updateDocument_def split: prod.splits sum.splits option.splits if_splits)

lemma updateDocument_uniform:
  assumes u: "\<forall>d\<in>set (getAllDocuments db). has_dimension n d"
    and r: "updateDocument db evs now doc ce = (res, db', evs')"
  shows "\<exists>n'. (\<forall>d\<in>set (getAllDocuments db'). has_dimension n' d) \<and> (documents db \<noteq> [] \<longrightarrow> n' = n)"
proof (cases "db' = db")
  case True
  with u show ?thesis by blast
next
  case False
  let ?fd = "projr (fst (resolveEmbedding db evs doc ce))"
  from updateDocument_documents [OF r] False
  have c: "checkDimensions db (embedding ?fd) = None"
    and d: "documents db'
            = map_set (docId ?fd)
                (?fd\<lparr>createdAt := createdAt (the (map_get (docId ?fd) (documents db))),
                     updatedAt := Some now\<rparr>)
                (documents db)"
    by blast+
  from write_checked [OF u c] d show ?thesis by (simp add: getAllDocuments_def)
qed

lemma checkBatchDims_None:
  "checkBatchDims k n ds = None \<Longrightarrow> \<forall>d\<in>set ds. has_dimension n d"
  by (induction ds) (auto simp: has_dimension_def split: option.splits if_splits)

lemma finalCheck_None:
  assumes "finalCheck db finals = None"
  shows "\<exists>x. getEmbeddingDimensions db = Inr x \<and>
           (finals = [] \<or> (\<exists>n. (\<forall>d\<in>set finals. has_dimension n d) \<and> (x = None \<or> x = Some n)))"
  using assms
  by (auto simp: finalCheck_def has_dimension_def
      split: sum.splits list.splits option.splits if_splits dest!: checkBatchDims_None)

lemma writeDocuments_uniform:
  "\<forall>d\<in>set (map_values m). has_dimension n d \<Longrightarrow> \<forall>d\<in>set ds. has_dimension n d \<Longrightarrow>
     \<forall>d\<in>set (map_values (writeDocuments now ds m)). has_dimension n d"
proof (induction ds arbitrary: m)
  case Nil
  then show ?case by simp
next
  case (Cons d ds)
  let ?v = "d\<lparr>createdAt := Some (case createdAt d of Some c \<Rightarrow> c | None \<Rightarrow> now), updatedAt := Some now\<rparr>"
  have "\<forall>x\<in>set (map_values (map_set (docId d) ?v m)). has_dimension n x"
    using Cons.prems values_map_set [of "docId d" ?v m] by auto
  with Cons.IH [of "map_set (docId d) ?v m"] Cons.prems(2) show ?case by simp
qed

lemma finishAdd_uniform:
  assumes u: "\<forall>d\<in>set (getAllDocuments db). has_dimension n d"
    and r: "finishAdd db evs now finals = (res, db', evs')"
  shows "\<exists>n'. (\<forall>d\<in>set (getAllDocuments db'). has_dimension n' d) \<and> (documents db \<noteq> [] \<longrightarrow> n' = n)"
proof (cases "finalCheck db finals")
  case (Some err)
  with r u show ?thesis by (auto simp: finishAdd_def)
next
  case None
  with r have db': "documents db' = writeDocuments now finals (documents db)"
    by (auto simp: finishAdd_def)
  from finalCheck_None [OF None] obtain x where x: "getEmbeddingDimensions db = Inr x"
    "finals = [] \<or> (\<exists>n. (\<forall>d\<in>set finals. has_dimension n d) \<and> (x = None \<or> x = Some n))"
    by blast
  show ?thesis
  proof (cases "finals = []")
    case True
    with db' u show ?thesis by (auto simp: getAllDocuments_def)
  next
    case False
    with x(2) obtain nf where nf: "\<forall>d\<in>set finals. has_dimension nf d" "x = None \<or> x = Some nf"
      by blast
    show ?thesis
    proof (cases "documents db = []")
      case True
      then have "\<forall>d\<in>set (map_values (documents db)). has_dimension nf d"
        by (simp add: map_values_def)
      from writeDocuments_uniform [OF this nf(1)] db' True show ?thesis
        by (auto simp: getAllDocuments_def)
    next
      case False
      with dims_of_uniform [OF u] x(1) nf(2) have "nf = n" by simp
      with writeDocuments_uniform [of "documents db" n finals now] u nf(1) db' show ?thesis
        by (auto simp: getAllDocuments_def)
    qed
  qed
qed

lemma addDocuments_uniform:
  assumes u: "\<forall>d\<in>set (getAllDocuments db). has_dimension n d"
    and r: "addDocuments db evs now docs opts = Some (res, db', evs')"
  shows "\<exists>n'. (\<forall>d\<in>set (getAllDocuments db'). has_dimension n' d) \<and> (documents db \<noteq> [] \<longrightarrow> n' = n)"
proof (cases "db' = db")
  case True
  with u show ?thesis by blast
next
  case False
  with r obtain evs0 finals where "finishAdd db evs0 now finals = (res, db', evs')"
    by (auto simp: addDocuments_def Let_def
        split: if_splits option.splits sum.splits prod.splits)
  from finishAdd_uniform [OF u this] show ?thesis .
qed

lemma perform_uniform:
  assumes u: "\<forall>d\<in>set (getAllDocuments db). has_dimension n d"
    and p: "perform db evs now op = Some (db', evs')"
  shows "\<exists>n'. (\<forall>d\<in>set (getAllDocuments db'). has_dimension n' d) \<and>
              (documents db \<noteq> [] \<and> documents db' \<noteq> [] \<longrightarrow> n' = n)"
proof (cases op)
  case (AddDocument doc ce)
  with p obtain res where "addDocument db evs now doc ce = (res, db', evs')"
    by (cases "addDocument db evs now doc ce") auto
  from addDocument_uniform [OF u this] show ?thesis by blast
next
  case (AddDocuments docs opts)
  with p obtain res where "addDocuments db evs now docs opts = Some (res, db', evs')"
    by auto
  from addDocuments_uniform [OF u this] show ?thesis by blast
next
  case (UpdateDocument doc ce)
  with p obtain res where "updateDocument db evs now doc ce = (res, db', evs')"
    by (cases "updateDocument db evs now doc ce") auto
  from updateDocument_uniform [OF u this] show ?thesis by blast
next
  case (RemoveDocument k)
  with p u values_map_delete [of k "documents db"] show ?thesis
    by (auto simp: removeDocument_def getAllDocuments_def intro!: exI [of _ n])
next
  case Clear
  with p show ?thesis by (auto simp: clear_def getAllDocuments_def map_values_def)
next
  case (SetDefaultBatchSize k)
  with p have "documents db' = documents db"
    by (auto simp: setDefaultBatchSize_def split: if_splits)
  with u show ?thesis by (auto simp: getAllDocuments_def)
next
  case (SetDefaultBatchDelay k)
  with p have "documents db' = documents db"
    by (auto simp: setDefaultBatchDelay_def split: if_splits)
  with u show ?thesis by (auto simp: getAllDocuments_def)
next
  case (SetEmbeddingModel m)
  with p have "documents db' = documents db"
    by (auto simp: setEmbeddingModel_def)
  with u show ?thesis by (auto simp: getAllDocuments_def)
qed (use p u in auto)

lemma perform_invariant:
  assumes "dim_invariant db" "perform db evs now op = Some (db', evs')"
  shows "dim_invariant db'"
    and "documents db \<noteq> [] \<Longrightarrow> documents db' \<noteq> [] \<Longrightarrow>
           getEmbeddingDimensions db' = getEmbeddingDimensions db"
proof -
  from assms(1) obtain n where u: "\<forall>d\<in>set (getAllDocuments db). has_dimension n d"
    by (auto simp: dim_invariant_iff)
  from perform_uniform [OF u assms(2)] obtain n' where
    n': "\<forall>d\<in>set (getAllDocuments db'). has_dimension n' d"
    "documents db \<noteq> [] \<and> documents db' \<noteq> [] \<longrightarrow> n' = n" by blast
  from n'(1) show "dim_invariant db'" by (auto simp: dim_invariant_iff)
  show "getEmbeddingDimensions db' = getEmbeddingDimensions db"
    if "documents db \<noteq> []" "documents db' \<noteq> []"
    using that dims_of_uniform [OF u] dims_of_uniform [OF n'(1)] n'(2) by simp
qed

lemma reachable_invariant: "reachable db evs \<Longrightarrow> dim_invariant db"
proof (induction rule: reachable.induct)
  case (start oa model bs bd)
  show ?case by (simp add: dim_invariant_def getAllDocuments_def new_NeuraDB_def map_values_def)
next
  case (step db evs now op db' evs')
  then show ?case using perform_invariant(1) by blast
qed

text \<open>
  The dimension is read off the first document of the table, so it is unset whenever the
  table is empty, however it became empty: after the only document (dimension 3) is
  removed with \<open>removeDocument\<close>, a document of dimension 2 is accepted, and \<open>clear\<close> was
  never called.
\<close>

theorem dimension_changes_without_clear:
  "perform empty_db [] 1 (AddDocument (doc_of ''doc1'' [Num 1, Num 2, Num 3]) False)
     = Some (db_of [stored (doc_of ''doc1'' [Num 1, Num 2, Num 3]) 1 1], []) \<and>
   getEmbeddingDimensions (db_of [stored (doc_of ''doc1'' [Num 1, Num 2, Num 3]) 1 1])
     = Inr (Some 3) \<and>
   perform (db_of [stored (doc_of ''doc1'' [Num 1, Num 2, Num 3]) 1 1]) [] 2
       (RemoveDocument ''doc1'')
     = Some (empty_db, []) \<and>
   perform empty_db [] 3 (AddDocument (doc_of ''doc2'' [Num 1, Num 2]) False)
     = Some (db_of [stored (doc_of ''doc2'' [Num 1, Num 2]) 3 3], []) \<and>
   getEmbeddingDimensions (db_of [stored (doc_of ''doc2'' [Num 1, Num 2]) 3 3])
     = Inr (Some 2)"
  by (simp add: run_defs)

text \<open>
  Claim C1, amended: in every reachable state any two documents of the table have
  embeddings of equal length; the dimension is unset exactly when the table is empty and
  is otherwise the common length; every operation (\<open>addDocument\<close>, \<open>addDocuments\<close>,
  \<open>updateDocument\<close>, \<open>removeDocument\<close>, \<open>clear\<close> and the others) preserves the invariant,
  and leaves the dimension as it is whenever the table holds documents before and after.
\<close>

theorem dimension_invariant:
  assumes "reachable db evs"
  shows "dim_invariant db \<and>
         (documents db = [] \<longrightarrow> getEmbeddingDimensions db = Inr None) \<and>
         (documents db \<noteq> [] \<longrightarrow>
            (\<exists>n. getEmbeddingDimensions db = Inr (Some n) \<and>
                 (\<forall>d\<in>set (getAllDocuments db). has_dimension n d))) \<and>
         (\<forall>now op db' evs'. perform db evs now op = Some (db', evs') \<longrightarrow>
            dim_invariant db' \<and>
            (documents db \<noteq> [] \<and> documents db' \<noteq> [] \<longrightarrow>
               getEmbeddingDimensions db' = getEmbeddingDimensions db))"
proof -
  have inv: "dim_invariant db" by (rule reachable_invariant [OF assms])
  then obtain n where u: "\<forall>d\<in>set (getAllDocuments db). has_dimension n d"
    by (auto simp: dim_invariant_iff)
  have "documents db \<noteq> [] \<longrightarrow>
            (\<exists>n. getEmbeddingDimensions db = Inr (Some n) \<and>
                 (\<forall>d\<in>set (getAllDocuments db). has_dimension n d))"
    using dims_of_uniform [OF u] u by blast
  with inv perform_invariant [OF inv] dims_of_empty [of db] show ?thesis by blast
qed

theorem dimension_invariant_witness:
  "reachable (db_of [stored (doc_of ''doc1'' [Num 1, Num 2, Num 3]) 1 1]) [] \<and>
   dim_invariant (db_of [stored (doc_of ''doc1'' [Num 1, Num 2, Num 3]) 1 1]) \<and>
   getEmbeddingDimensions (db_of [stored (doc_of ''doc1'' [Num 1, Num 2, Num 3]) 1 1])
     = Inr (Some 3)"
proof -
  let ?db = "db_of [stored (doc_of ''doc1'' [Num 1, Num 2, Num 3]) 1 1]"
  have "reachable empty_db []" unfolding empty_db_def by (rule reachable.start)
  moreover have "perform empty_db [] 1 (AddDocument (doc_of ''doc1'' [Num 1, Num 2, Num 3]) False)
                   = Some (?db, [])"
    by (simp add: run_defs)
  ultimately have r: "reachable ?db []" by (rule reachable.step)
  from dimension_invariant [OF r] have "dim_invariant ?db" by blast
  moreover have "getEmbeddingDimensions ?db = Inr (Some 3)" by (simp add: run_defs)
  ultimately show ?thesis using r by blast
qed

section \<open>Scenarios of the test suite\<close>

text \<open>
  The model run on scenarios of the repository's tests: a document of another dimension
  is refused with both dimensions in the error; an orthogonal query under a threshold of
  0.99 finds nothing; a batch of three documents with batch size 2 makes two provider
  calls with one delay between them and stores three documents, and with a progress
  callback it reports the cumulative counts.
\<close>

lemma dimension_mismatch_scenario:
  "addDocument (db_of [stored (doc_of ''doc1'' [Num 1, Num 2, Num 3]) 1 1]) [] 2
     (doc_of ''doc2'' [Num 1, Num 2]) False
     = (Inl (DimensionsDontMatch 2 (Some 3)),
        db_of [stored (doc_of ''doc1'' [Num 1, Num 2, Num 3]) 1 1], [])"
  by (simp add: run_defs)

lemma threshold_scenario:
  "search (db_of [stored (doc_of ''doc1'' [Num 1, Num 0, Num 0]) 1 1]) []
     (QVector [Num 0, Num 1, Num 0]) (no_options\<lparr>threshold := Some (Num (99 / 100))\<rparr>)
     = (Inr [], [])"
  by (simp add: search_def resolveQuery_def sortedResults_def documentsToSearch_def
      calculateSimilarity_def cosineSimilarity_def magnitude_def reduce_def num_at_def
      js_ge_def sortResults_def js_slice_def slice_index_def run_defs)

lemmas gen_defs =
  generateFor_def generateEmbeddings_def wrapGenerate_def validateGenerated_def
  finishAdd_def finalCheck_def mock_db_def mock_openai_def sortedEmbeddings_def

lemma chunk_texts:
  "chunkArray [''Content 1'', ''Content 2'', ''Content 3''] 2
     = Some [[''Content 1'', ''Content 2''], [''Content 3'']]"
proof -
  have "chunkArray [''Content 1'', ''Content 2'', ''Content 3''] (int 2)
          = Some (chunks_of 2 [''Content 1'', ''Content 2'', ''Content 3''])"
    by (rule chunkArray_chunks) simp
  then show ?thesis by (simp add: chunks_of_def upt_rec)
qed

lemma batch_scenario:
  "addDocuments mock_db [] 7 docs3 (add_options True (Some 2) (Some 100) False)
     = Some (Inr (),
             mock_db\<lparr>documents :=
                [added ''doc1'' ''Content 1'' 0 7, added ''doc2'' ''Content 2'' 1 7,
                 added ''doc3'' ''Content 3'' 0 7]\<rparr>,
             [EmbedCall (Many [''Content 1'', ''Content 2'']) ''text-embedding-3-small'',
              Delay 100,
              EmbedCall (Many [''Content 3'']) ''text-embedding-3-small''])"
  using chunk_texts
  by (simp add: docs3_def added_def batch_defs gen_defs new_NeuraDB_def
      getEmbeddingDimensions_def map_values_def map_has_def upt_rec)

lemma progress_scenario:
  "addDocuments mock_db [] 7 docs3 (add_options True (Some 2) (Some 100) True)
     = Some (Inr (),
             mock_db\<lparr>documents :=
                [added ''doc1'' ''Content 1'' 0 7, added ''doc2'' ''Content 2'' 1 7,
                 added ''doc3'' ''Content 3'' 0 7]\<rparr>,
             [EmbedCall (Many [''Content 1'', ''Content 2'']) ''text-embedding-3-small'',
              Progress 2 3, Delay 100,
              EmbedCall (Many [''Content 3'']) ''text-embedding-3-small'',
              Progress 3 3])"
  using chunk_texts
  by (simp add: docs3_def added_def batch_defs gen_defs new_NeuraDB_def
      getEmbeddingDimensions_def map_values_def map_has_def upt_rec)

end
